theory Spec2Isabelle
  imports Main "HOL-Library.Product_Lexorder"
begin

section \<open>Calendar dates\<close>

text \<open>
  Python's \<^verbatim>\<open>datetime.date\<close> is the triple (year, month, day). Dates compare as these
  triples do, lexicographically, which is the order of the product type. The constructor
  \<^verbatim>\<open>date(y, m, d)\<close> raises ValueError outside MINYEAR..MAXYEAR (1..9999), outside
  the months 1..12 and outside the days of the month; the raise is the value \<open>None\<close>.
\<close>

type_synonym date = "int \<times> int \<times> int"

definition year_of :: "date \<Rightarrow> int" where
  "year_of d = fst d"

definition month_of :: "date \<Rightarrow> int" where
  "month_of d = fst (snd d)"

definition day_of :: "date \<Rightarrow> int" where
  "day_of d = snd (snd d)"

definition is_leap :: "int \<Rightarrow> bool" where
  "is_leap y = (y mod 4 = 0 \<and> (y mod 100 \<noteq> 0 \<or> y mod 400 = 0))"

definition days_in_month :: "int \<Rightarrow> int \<Rightarrow> int" where
  "days_in_month y m =
     (if m = 2 then (if is_leap y then 29 else 28)
      else if m = 4 \<or> m = 6 \<or> m = 9 \<or> m = 11 then 30 else 31)"

definition date_valid :: "date \<Rightarrow> bool" where
  "date_valid d =
     (1 \<le> year_of d \<and> year_of d \<le> 9999 \<and> 1 \<le> month_of d \<and> month_of d \<le> 12 \<and>
      1 \<le> day_of d \<and> day_of d \<le> days_in_month (year_of d) (month_of d))"

definition mk_date :: "int \<Rightarrow> int \<Rightarrow> int \<Rightarrow> date option" where
  "mk_date y m d = (if date_valid (y, m, d) then Some (y, m, d) else None)"

definition date_min :: date where
  "date_min = (1, 1, 1)"

section \<open>Subscription policy\<close>

text \<open>
  \<^verbatim>\<open>subscription_config\<close> is a dictionary read with \<^verbatim>\<open>.get("end_day", 20)\<close>: the
  configuration is the value stored under the key, \<open>None\<close> when the key is absent.
\<close>

definition calc_end_date :: "int option \<Rightarrow> date \<Rightarrow> date option" where
  "calc_end_date subscription_config today =
     (let end_day = (case subscription_config of None \<Rightarrow> 20 | Some e \<Rightarrow> e);
          end_day = (if end_day < 1 then 1 else end_day);
          end_day = (if end_day > 28 then 28 else end_day);
          target_year = (if month_of today = 12 then year_of today + 1 else year_of today);
          target_month = (if month_of today = 12 then 1 else month_of today + 1)
      in mk_date target_year target_month end_day)"

section \<open>Text, numbers and dates as the ledger stores them\<close>

text \<open>
  A Python string is a sequence of characters (Unicode code points). It is modelled by its
  UTF-8 encoding, a list of bytes, so that the ASCII names of the source are string
  literals and the Cyrillic header names are their bytes. In UTF-8 a character is one byte
  that is not a continuation byte (0x80 to 0xBF), followed by its continuation bytes:
  \<open>chars\<close> cuts a string into its characters, \<open>code_point\<close> is the number of a character
  and \<open>code_points\<close> the string as Python sees it.
\<close>

definition is_continuation :: "char \<Rightarrow> bool" where
  "is_continuation b = (let n = (of_char b :: int) in 128 \<le> n \<and> n < 192)"

function chars :: "string \<Rightarrow> string list" where
  "chars [] = []"
| "chars (b # bs) = (b # takeWhile is_continuation bs) # chars (dropWhile is_continuation bs)"
  by pat_completeness auto

termination chars
  by (relation "measure length") (simp_all add: le_imp_less_Suc length_dropWhile_le)

definition code_point :: "string \<Rightarrow> int" where
  "code_point c =
     (case c of
        [] \<Rightarrow> 0
      | b # bs \<Rightarrow>
          fold (\<lambda>x n. 64 * n + of_char x mod 64) bs
            (of_char b mod (case length bs of 0 \<Rightarrow> 128 | Suc 0 \<Rightarrow> 32 | Suc (Suc 0) \<Rightarrow> 16 | _ \<Rightarrow> 8)))"

definition code_points :: "string \<Rightarrow> int list" where
  "code_points s = map code_point (chars s)"

text \<open>
  \<^verbatim>\<open>str.strip()\<close> removes from both ends the characters for which \<^verbatim>\<open>str.isspace\<close>
  holds: the ASCII white space with the separators 0x1C to 0x1F, the next-line character
  U+0085, the no-break space U+00A0 and the other Unicode spaces and line separators.
\<close>

definition is_space :: "int \<Rightarrow> bool" where
  "is_space cp =
     (cp \<in> set [0x09, 0x0A, 0x0B, 0x0C, 0x0D, 0x1C, 0x1D, 0x1E, 0x1F, 0x20, 0x85, 0xA0, 0x1680,
                0x2000, 0x2001, 0x2002, 0x2003, 0x2004, 0x2005, 0x2006, 0x2007, 0x2008, 0x2009,
                0x200A, 0x2028, 0x2029, 0x202F, 0x205F, 0x3000])"

definition strip :: "string \<Rightarrow> string" where
  "strip s =
     concat (rev (dropWhile (\<lambda>c. is_space (code_point c))
                    (rev (dropWhile (\<lambda>c. is_space (code_point c)) (chars s)))))"

fun split_on :: "'a \<Rightarrow> 'a list \<Rightarrow> 'a list list" where
  "split_on sep [] = [[]]"
| "split_on sep (c # cs) =
     (if c = sep then [] # split_on sep cs
      else (case split_on sep cs of [] \<Rightarrow> [[c]] | g # gs \<Rightarrow> (c # g) # gs))"

text \<open>
  The decimal digits of Unicode (the characters of \<^verbatim>\<open>str.isdecimal\<close>, which are also the
  characters of \<^verbatim>\<open>\d\<close> in a regular expression on text) come in runs of ten, from the
  digit zero to the digit nine of a script; the list holds the zero of every run (Unicode
  14.0, the character database of CPython 3.11).
\<close>

definition decimal_zeros :: "int list" where
  "decimal_zeros =
     [0x30, 0x660, 0x6F0, 0x7C0, 0x966, 0x9E6, 0xA66, 0xAE6, 0xB66, 0xBE6, 0xC66, 0xCE6, 0xD66,
      0xDE6, 0xE50, 0xED0, 0xF20, 0x1040, 0x1090, 0x17E0, 0x1810, 0x1946, 0x19D0, 0x1A80, 0x1A90,
      0x1B50, 0x1BB0, 0x1C40, 0x1C50, 0xA620, 0xA8D0, 0xA900, 0xA9D0, 0xA9F0, 0xAA50, 0xABF0,
      0xFF10, 0x104A0, 0x10D30, 0x11066, 0x110F0, 0x11136, 0x111D0, 0x112F0, 0x11450, 0x114D0,
      0x11650, 0x116C0, 0x11730, 0x118E0, 0x11950, 0x11C50, 0x11D50, 0x11DA0, 0x16A60, 0x16AC0,
      0x16B50, 0x1D7CE, 0x1D7D8, 0x1D7E2, 0x1D7EC, 0x1D7F6, 0x1E140, 0x1E2F0, 0x1E950, 0x1FBF0]"

definition digit_val :: "int \<Rightarrow> int option" where
  "digit_val cp =
     (case filter (\<lambda>z. z \<le> cp \<and> cp < z + 10) decimal_zeros of
        [] \<Rightarrow> None
      | z # _ \<Rightarrow> Some (cp - z))"

fun int_of_digits :: "int \<Rightarrow> int list \<Rightarrow> int option" where
  "int_of_digits acc [] = Some acc"
| "int_of_digits acc (c # cs) =
     (case digit_val c of None \<Rightarrow> None | Some v \<Rightarrow> int_of_digits (10 * acc + v) cs)"

text \<open>
  \<^verbatim>\<open>int(s)\<close> on a string. The white space that is ignored around the literal is the
  ASCII white space 0x09 to 0x0D and 0x20 and every white space character that is not
  ASCII (the separators 0x1C to 0x1F are not ignored). One sign is allowed, the digits
  are decimal digits of any script and may be grouped by single underscores, and a
  literal of more than 4300 digits is refused (the default limit of the interpreter).
  ValueError is \<open>None\<close>.
\<close>

definition int_space :: "int \<Rightarrow> bool" where
  "int_space cp = (is_space cp \<and> \<not> (0x1C \<le> cp \<and> cp \<le> 0x1F))"

definition py_int :: "string \<Rightarrow> int option" where
  "py_int s =
     (let t = rev (dropWhile int_space (rev (dropWhile int_space (code_points s))));
          neg = (case t of [] \<Rightarrow> False | c # _ \<Rightarrow> c = 0x2D);
          body = (case t of [] \<Rightarrow> [] | c # r \<Rightarrow> if c = 0x2D \<or> c = 0x2B then r else t);
          groups = split_on 0x5F body;
          digits = concat groups
      in if [] \<in> set groups \<or> int (length digits) > 4300 then None
         else (case int_of_digits 0 digits of
                 None \<Rightarrow> None
               | Some n \<Rightarrow> Some (if neg then - n else n)))"

text \<open>\<^verbatim>\<open>str(n)\<close> of an integer, and \<^verbatim>\<open>date.isoformat()\<close>.\<close>

fun digits_of_nat :: "nat \<Rightarrow> string" where
  "digits_of_nat n =
     (if n < 10 then [''0123456789'' ! n]
      else digits_of_nat (n div 10) @ [''0123456789'' ! (n mod 10)])"

declare digits_of_nat.simps [simp del]

definition py_str_int :: "int \<Rightarrow> string" where
  "py_str_int i = (if i < 0 then CHR ''-'' # digits_of_nat (nat (- i)) else digits_of_nat (nat i))"



text \<open>
  \<^verbatim>\<open>date.fromordinal\<close>: day 1 is 0001-01-01 and day 3652059 is 9999-12-31 (the usual
  conversion through 400-year eras that start on the first of March).
\<close>

definition date_of_ordinal :: "int \<Rightarrow> date" where
  "date_of_ordinal n =
     (let z = n + 305;
          era = z div 146097;
          doe = z mod 146097;
          yoe = (doe - doe div 1460 + doe div 36524 - doe div 146096) div 365;
          doy = doe - (365 * yoe + yoe div 4 - yoe div 100);
          mp = (5 * doy + 2) div 153;
          d = doy - (153 * mp + 2) div 5 + 1;
          m = (if mp < 10 then mp + 3 else mp - 9);
          y = yoe + era * 400
      in (if m \<le> 2 then y + 1 else y, m, d))"

text \<open>
  The values a cell can have when it reaches the code: \<^verbatim>\<open>None\<close>, a string, an integer,
  a float or a \<^verbatim>\<open>datetime\<close>. The code reads one thing only from a float, the whole-day
  part of \<^verbatim>\<open>timedelta(days=x)\<close>, so a float is represented by that number, \<open>None\<close>
  when \<^verbatim>\<open>timedelta\<close> raises. Of a \<^verbatim>\<open>datetime\<close> it reads the date.
\<close>

datatype pyval = PNone | PStr string | PInt int | PFloat "int option" | PDatetime date

definition serial_date :: "int \<Rightarrow> date option" where
  \<comment> \<open>\<^verbatim>\<open>datetime(1899, 12, 30).date() + timedelta(days=n)\<close>; OverflowError is \<open>None\<close>\<close>
  "serial_date n =
     (if 1 \<le> 693594 + n \<and> 693594 + n \<le> 3652059 then Some (date_of_ordinal (693594 + n))
      else None)"

text \<open>
  \<^verbatim>\<open>datetime.strptime(s, fmt).date()\<close> for the three formats of the source. The format
  becomes a regular expression that must match the whole string: a year is
  \<^verbatim>\<open>\d\d\d\d\<close> (four decimal digits of any script), a month is
  \<^verbatim>\<open>1[0-2]|0[1-9]|[1-9]\<close> and a day is \<^verbatim>\<open>3[0-1]|[1-2]\d|0[1-9]|[1-9]| [1-9]\<close>, where
  the ranges in brackets are ASCII digits; the fields are then read with \<^verbatim>\<open>int\<close>. No
  field can hold the separator, so the string is cut at the separators. The date must
  exist. ValueError is \<open>None\<close>.
\<close>

definition ascii_digit :: "int \<Rightarrow> int \<Rightarrow> int \<Rightarrow> int option" where
  \<comment> \<open>\<^verbatim>\<open>[lo-hi]\<close>\<close>
  "ascii_digit lo hi cp = (if 48 + lo \<le> cp \<and> cp \<le> 48 + hi then Some (cp - 48) else None)"

definition parse_d :: "int list \<Rightarrow> int option" where
  "parse_d f =
     (case f of
        [a] \<Rightarrow> ascii_digit 1 9 a
      | [a, b] \<Rightarrow>
          if a = 0x33 then map_option (\<lambda>v. 30 + v) (ascii_digit 0 1 b)
          else if a = 0x31 \<or> a = 0x32 then map_option (\<lambda>v. 10 * (a - 48) + v) (digit_val b)
          else if a = 0x30 \<or> a = 0x20 then ascii_digit 1 9 b
          else None
      | _ \<Rightarrow> None)"

definition parse_m :: "int list \<Rightarrow> int option" where
  "parse_m f =
     (case f of
        [a] \<Rightarrow> ascii_digit 1 9 a
      | [a, b] \<Rightarrow>
          if a = 0x31 then map_option (\<lambda>v. 10 + v) (ascii_digit 0 2 b)
          else if a = 0x30 then ascii_digit 1 9 b
          else None
      | _ \<Rightarrow> None)"

definition parse_Y :: "int list \<Rightarrow> int option" where
  "parse_Y f = (if length f = 4 then int_of_digits 0 f else None)"

datatype date_format = Ymd_dash | dmY_dot | dmY_slash

definition strptime_date :: "int list \<Rightarrow> date_format \<Rightarrow> date option" where
  "strptime_date s fmt =
     (case fmt of
        Ymd_dash \<Rightarrow>
          (case split_on 0x2D s of
             [y, m, d] \<Rightarrow>
               (case (parse_Y y, parse_m m, parse_d d) of
                  (Some yy, Some mm, Some dd) \<Rightarrow> mk_date yy mm dd
                | _ \<Rightarrow> None)
           | _ \<Rightarrow> None)
      | _ \<Rightarrow>
          (case split_on (if fmt = dmY_dot then 0x2E else 0x2F) s of
             [d, m, y] \<Rightarrow>
               (case (parse_Y y, parse_m m, parse_d d) of
                  (Some yy, Some mm, Some dd) \<Rightarrow> mk_date yy mm dd
                | _ \<Rightarrow> None)
           | _ \<Rightarrow> None))"

definition replace_nbsp :: "int list \<Rightarrow> int list" where
  \<comment> \<open>\<^verbatim>\<open>.replace\<close> of the no-break space U+00A0 by a space\<close>
  "replace_nbsp s = map (\<lambda>cp. if cp = 0xA0 then 0x20 else cp) s"

fun first_format :: "int list \<Rightarrow> date_format list \<Rightarrow> date option" where
  "first_format s [] = None"
| "first_format s (fmt # fmts) =
     (case strptime_date s fmt of Some d \<Rightarrow> Some d | None \<Rightarrow> first_format s fmts)"

definition parse_sheet_date :: "pyval \<Rightarrow> date option" where
  "parse_sheet_date val =
     (case val of
        PNone \<Rightarrow> None
      | PDatetime d \<Rightarrow> Some d
      | PInt n \<Rightarrow> serial_date n
      | PFloat dd \<Rightarrow> (case dd of None \<Rightarrow> None | Some n \<Rightarrow> serial_date n)
      | PStr v \<Rightarrow>
          (if strip v = [] then None
           else first_format (replace_nbsp (code_points (strip v))) [Ymd_dash, dmY_dot, dmY_slash]))"

section \<open>Header names and column lookup\<close>

definition data_oplaty :: string where
  "data_oplaty = [CHR 0xD0, CHR 0xB4, CHR 0xD0, CHR 0xB0, CHR 0xD1, CHR 0x82, CHR 0xD0, CHR 0xB0]
     @ ''_'' @ [CHR 0xD0, CHR 0xBE, CHR 0xD0, CHR 0xBF, CHR 0xD0, CHR 0xBB, CHR 0xD0, CHR 0xB0,
                CHR 0xD1, CHR 0x82, CHR 0xD1, CHR 0x8B]"

definition data_oplaty_sp :: string where
  "data_oplaty_sp = [CHR 0xD0, CHR 0xB4, CHR 0xD0, CHR 0xB0, CHR 0xD1, CHR 0x82, CHR 0xD0, CHR 0xB0]
     @ '' '' @ [CHR 0xD0, CHR 0xBE, CHR 0xD0, CHR 0xBF, CHR 0xD0, CHR 0xBB, CHR 0xD0, CHR 0xB0,
                CHR 0xD1, CHR 0x82, CHR 0xD1, CHR 0x8B]"

definition data_okonchaniya :: string where
  "data_okonchaniya = [CHR 0xD0, CHR 0xB4, CHR 0xD0, CHR 0xB0, CHR 0xD1, CHR 0x82, CHR 0xD0, CHR 0xB0]
     @ ''_'' @ [CHR 0xD0, CHR 0xBE, CHR 0xD0, CHR 0xBA, CHR 0xD0, CHR 0xBE, CHR 0xD0, CHR 0xBD,
                CHR 0xD1, CHR 0x87, CHR 0xD0, CHR 0xB0, CHR 0xD0, CHR 0xBD, CHR 0xD0, CHR 0xB8,
                CHR 0xD1, CHR 0x8F]"

definition data_okonchaniya_sp :: string where
  "data_okonchaniya_sp = [CHR 0xD0, CHR 0xB4, CHR 0xD0, CHR 0xB0, CHR 0xD1, CHR 0x82, CHR 0xD0, CHR 0xB0]
     @ '' '' @ [CHR 0xD0, CHR 0xBE, CHR 0xD0, CHR 0xBA, CHR 0xD0, CHR 0xBE, CHR 0xD0, CHR 0xBD,
                CHR 0xD1, CHR 0x87, CHR 0xD0, CHR 0xB0, CHR 0xD0, CHR 0xBD, CHR 0xD0, CHR 0xB8,
                CHR 0xD1, CHR 0x8F]"

definition status_ru :: string where
  "status_ru = [CHR 0xD1, CHR 0x81, CHR 0xD1, CHR 0x82, CHR 0xD0, CHR 0xB0, CHR 0xD1, CHR 0x82,
                CHR 0xD1, CHR 0x83, CHR 0xD1, CHR 0x81]"

definition telefon :: string where
  "telefon = [CHR 0xD1, CHR 0x82, CHR 0xD0, CHR 0xB5, CHR 0xD0, CHR 0xBB, CHR 0xD0, CHR 0xB5,
              CHR 0xD1, CHR 0x84, CHR 0xD0, CHR 0xBE, CHR 0xD0, CHR 0xBD]"

definition WANTED_HEADERS_RU :: "string list" where
  "WANTED_HEADERS_RU =
     [''user_id'', ''username'', data_oplaty, data_okonchaniya, ''notified'', status_ru,
      ''full_name'', ''phone_number'', ''in_channel'']"

definition HEADER_ALIASES :: "(string \<times> string list) list" where
  "HEADER_ALIASES =
     [(''user_id'', [''user_id'', ''id'', ''userid'']),
      (''username'', [''username'', ''user'', ''name'']),
      (data_oplaty, [data_oplaty, ''paid_at'', data_oplaty_sp]),
      (data_okonchaniya, [data_okonchaniya, ''paid_until'', ''end_date'', data_okonchaniya_sp]),
      (''notified'', [''notified'']),
      (status_ru, [status_ru, ''status'']),
      (''full_name'', [''full_name'', ''fullname'', ''fio'']),
      (''phone_number'', [''phone_number'', ''phone'', telefon]),
      (''in_channel'', [''in_channel''])]"

definition aliases_of :: "string \<Rightarrow> string list" where
  \<comment> \<open>\<^verbatim>\<open>HEADER_ALIASES.get(header_name, [header_name])\<close>\<close>
  "aliases_of header_name =
     (case map_of HEADER_ALIASES header_name of None \<Rightarrow> [header_name] | Some al \<Rightarrow> al)"

fun index_of :: "'a \<Rightarrow> 'a list \<Rightarrow> nat" where
  \<comment> \<open>\<^verbatim>\<open>list.index\<close>, used only on an element of the list\<close>
  "index_of a [] = 0"
| "index_of a (x # xs) = (if x = a then 0 else Suc (index_of a xs))"

fun first_alias :: "string list \<Rightarrow> string list \<Rightarrow> nat option" where
  "first_alias headers [] = None"
| "first_alias headers (a # al) =
     (if a \<in> set headers then Some (index_of a headers) else first_alias headers al)"

definition find_col :: "string list \<Rightarrow> string \<Rightarrow> nat option" where
  \<comment> \<open>\<^verbatim>\<open>_find_col\<close>; \<open>headers\<close> is what \<^verbatim>\<open>sheet.row_values(1)\<close> returned\<close>
  "find_col headers header_name = first_alias headers (aliases_of header_name)"

section \<open>Eligibility\<close>

definition row_is_paid :: "string list \<Rightarrow> date \<Rightarrow> string list \<Rightarrow> bool" where
  \<comment> \<open>\<^verbatim>\<open>_row_is_paid\<close>; \<open>today\<close> is \<^verbatim>\<open>datetime.utcnow().date()\<close>\<close>
  "row_is_paid headers today row_vals =
     (case find_col headers data_okonchaniya of
        None \<Rightarrow> False
      | Some idx \<Rightarrow>
          if idx \<ge> length row_vals then False
          else (case parse_sheet_date (PStr (row_vals ! idx)) of
                  None \<Rightarrow> False
                | Some pu \<Rightarrow> pu \<ge> today))"

section \<open>The ledger as the handlers read it\<close>

text \<open>
  The ledger is a worksheet: a list of rows of text cells, row 1 (the header row) first.
  \<^verbatim>\<open>get_all_values()\<close> returns it as it is. \<^verbatim>\<open>row_values(r)\<close> returns row \<open>r\<close> without its
  trailing empty cells, and the empty list for a row beyond the last one.
  \<^verbatim>\<open>delete_rows(r)\<close> removes row \<open>r\<close>, so that the rows after it move up.
\<close>

type_synonym sheet = "string list list"

definition trim_row :: "string list \<Rightarrow> string list" where
  "trim_row row = rev (dropWhile (\<lambda>c. c = []) (rev row))"

definition row_values :: "nat \<Rightarrow> sheet \<Rightarrow> string list" where
  "row_values r sh = (if 1 \<le> r \<and> r \<le> length sh then trim_row (sh ! (r - 1)) else [])"

definition delete_rows :: "nat \<Rightarrow> sheet \<Rightarrow> sheet" where
  "delete_rows r sh = take (r - 1) sh @ drop r sh"

text \<open>
  A dictionary of lists that is filled with \<^verbatim>\<open>d[k].append(v)\<close> (a \<^verbatim>\<open>defaultdict(list)\<close>
  or \<^verbatim>\<open>setdefault(k, [])\<close>) keeps its keys in the order of their first insertion: an
  association list.
\<close>

fun dict_append :: "'k \<Rightarrow> 'v \<Rightarrow> ('k \<times> 'v list) list \<Rightarrow> ('k \<times> 'v list) list" where
  "dict_append k v [] = [(k, [v])]"
| "dict_append k v ((k', vs) # d) =
     (if k' = k then (k', vs @ [v]) # d else (k', vs) # dict_append k v d)"

definition group_pairs :: "('k \<times> 'v) list \<Rightarrow> ('k \<times> 'v list) list" where
  "group_pairs kvs = fold (\<lambda>(k, v) d. dict_append k v d) kvs []"

definition lookup_list :: "('k \<times> 'v list) list \<Rightarrow> 'k \<Rightarrow> 'v list" where
  "lookup_list d k = (case map_of d k of None \<Rightarrow> [] | Some vs \<Rightarrow> vs)"

text \<open>
  \<^verbatim>\<open>sorted\<close> is stable; with \<^verbatim>\<open>reverse=True\<close> it sorts in descending order and still
  keeps elements with equal keys in their original order.
\<close>

definition py_sorted :: "('a \<Rightarrow> 'k::linorder) \<Rightarrow> 'a list \<Rightarrow> 'a list" where
  "py_sorted key xs = sort_key key xs"

definition py_sorted_reverse :: "('a \<Rightarrow> 'k::linorder) \<Rightarrow> 'a list \<Rightarrow> 'a list" where
  "py_sorted_reverse key xs = rev (sort_key key (rev xs))"

section \<open>Removal of duplicate rows (/purge\_dups)\<close>

text \<open>
  The loop over \<^verbatim>\<open>enumerate(data, start=2)\<close>: a row without a user id cell, with an empty
  one or with one that is not an integer is skipped; every other row contributes its row
  number and its parsed period end to the list of its identity.
\<close>

definition purge_uid :: "nat \<Rightarrow> string list \<Rightarrow> int option" where
  "purge_uid i_uid r =
     (if i_uid \<ge> length r \<or> r ! i_uid = [] then None else py_int (r ! i_uid))"

definition purge_pu :: "nat \<Rightarrow> string list \<Rightarrow> date option" where
  "purge_pu i_pu r = (if i_pu < length r then parse_sheet_date (PStr (r ! i_pu)) else None)"

definition purge_item :: "nat \<Rightarrow> nat \<Rightarrow> nat \<times> string list \<Rightarrow> (int \<times> nat \<times> date option) option" where
  "purge_item i_uid i_pu p =
     (case p of (idx, r) \<Rightarrow>
        (case purge_uid i_uid r of
           None \<Rightarrow> None
         | Some uid \<Rightarrow> Some (uid, idx, purge_pu i_pu r)))"

definition purge_per_uid :: "nat \<Rightarrow> nat \<Rightarrow> string list list \<Rightarrow> (int \<times> (nat \<times> date option) list) list" where
  "purge_per_uid i_uid i_pu data =
     group_pairs (List.map_filter (purge_item i_uid i_pu) (enumerate 2 data))"

definition purge_key :: "nat \<times> date option \<Rightarrow> date \<times> nat" where
  \<comment> \<open>\<^verbatim>\<open>lambda x: (x[1] or date.min, x[0])\<close>\<close>
  "purge_key x = (case snd x of None \<Rightarrow> date_min | Some d \<Rightarrow> d, fst x)"

definition purge_marks :: "(nat \<times> date option) list \<Rightarrow> nat list" where
  "purge_marks items =
     (if length items \<le> 1 then []
      else map fst (tl (py_sorted_reverse purge_key items)))"

definition purge_to_delete :: "nat \<Rightarrow> nat \<Rightarrow> string list list \<Rightarrow> nat list" where
  "purge_to_delete i_uid i_pu data =
     concat (map (\<lambda>(uid, items). purge_marks items) (purge_per_uid i_uid i_pu data))"

datatype purge_outcome =
  Purge_IndexError
| Purge_Missing_Columns
| Purge_No_Duplicates
| Purged sheet nat

text \<open>
  The handler, for the authorised operator and a ledger that can be read and written:
  \<^verbatim>\<open>rows[0]\<close> raises IndexError on an empty worksheet; the marked rows are deleted one by
  one, highest row number first, and counted.
\<close>

definition purge_duplicate_rows :: "sheet \<Rightarrow> purge_outcome" where
  "purge_duplicate_rows rows =
     (case rows of
        [] \<Rightarrow> Purge_IndexError
      | headers # data \<Rightarrow>
          (case (find_col (row_values 1 rows) ''user_id'',
                 find_col (row_values 1 rows) data_okonchaniya) of
             (Some i_uid, Some i_pu) \<Rightarrow>
               (let to_delete = purge_to_delete i_uid i_pu data in
                if to_delete = [] then Purge_No_Duplicates
                else (let to_delete = rev (sorted_list_of_set (set to_delete))
                      in Purged (fold delete_rows to_delete rows) (length to_delete)))
           | _ \<Rightarrow> Purge_Missing_Columns))"

section \<open>Removal of expired subscribers (/clean)\<close>

text \<open>
  \<^verbatim>\<open>get_all_records()\<close> returns one dictionary per data row, from header name to cell
  value; the library turns numeric text into numbers, so the values are of type
  \<open>pyval\<close>. The scan over the aliases of a header takes the first alias that is a key of
  the row and whose value is not blank as text.
\<close>

type_synonym sheet_record = "string \<rightharpoonup> pyval"

definition str_blank :: "pyval \<Rightarrow> bool" where
  \<comment> \<open>\<^verbatim>\<open>not str(v).strip()\<close>\<close>
  "str_blank v = (case v of PStr s \<Rightarrow> strip s = [] | _ \<Rightarrow> False)"

fun first_filled :: "sheet_record \<Rightarrow> string list \<Rightarrow> pyval" where
  "first_filled row [] = PNone"
| "first_filled row (k # ks) =
     (case row k of
        None \<Rightarrow> first_filled row ks
      | Some v \<Rightarrow> if str_blank v then first_filled row ks else v)"

definition clean_uid :: "pyval \<Rightarrow> int option" where
  \<comment> \<open>\<^verbatim>\<open>int(str(raw_uid).strip()) if raw_uid not in (None, "") else None\<close>, an exception gives
      \<^verbatim>\<open>None\<close>; the text of a float or of a \<^verbatim>\<open>datetime\<close> is never an integer literal\<close>
  "clean_uid raw_uid =
     (case raw_uid of
        PNone \<Rightarrow> None
      | PStr s \<Rightarrow> if s = [] then None else py_int (strip s)
      | PInt n \<Rightarrow> py_int (strip (py_str_int n))
      | PFloat _ \<Rightarrow> None
      | PDatetime _ \<Rightarrow> None)"

definition row_uid :: "sheet_record \<Rightarrow> int option" where
  "row_uid row = clean_uid (first_filled row (aliases_of ''user_id''))"

definition row_end :: "sheet_record \<Rightarrow> date option" where
  "row_end row = parse_sheet_date (first_filled row (aliases_of data_okonchaniya))"

definition clean_item :: "nat \<times> sheet_record \<Rightarrow> (int \<times> nat \<times> date) option" where
  \<comment> \<open>a row without an integer user id is skipped, and so is a row whose period end does
      not parse\<close>
  "clean_item p =
     (case p of (idx, row) \<Rightarrow>
        (case row_uid row of
           None \<Rightarrow> None
         | Some uid \<Rightarrow>
             (case row_end row of
                None \<Rightarrow> None
              | Some end_dt \<Rightarrow> Some (uid, idx, end_dt))))"

definition clean_by_user :: "sheet_record list \<Rightarrow> (int \<times> (nat \<times> date) list) list" where
  "clean_by_user records = group_pairs (List.map_filter clean_item (enumerate 2 records))"

definition month_start :: "date \<Rightarrow> date" where
  \<comment> \<open>\<^verbatim>\<open>today.replace(day=19)\<close>; every month has a 19th day\<close>
  "month_start today = (year_of today, month_of today, 19)"

definition clean_group :: "date \<Rightarrow> (nat \<times> date) list \<Rightarrow> bool \<times> nat list" where
  \<comment> \<open>one turn of the loop over \<^verbatim>\<open>by_user.items()\<close>: whether the identity is kicked, and the
      rows it adds to \<^verbatim>\<open>rows_to_delete\<close>\<close>
  "clean_group today rows_u =
     (let rows_sorted = py_sorted (\<lambda>x. (snd x, fst x)) rows_u;
          max_end = Max (set (map snd rows_sorted))
      in if max_end < month_start today then (True, map fst rows_sorted)
         else (False, map fst (filter (\<lambda>x. snd x < max_end) rows_sorted)))"

definition users_to_kick :: "date \<Rightarrow> sheet_record list \<Rightarrow> int list" where
  "users_to_kick today records =
     map fst (filter (\<lambda>(uid, rows_u). fst (clean_group today rows_u)) (clean_by_user records))"

definition rows_to_delete :: "date \<Rightarrow> sheet_record list \<Rightarrow> nat list" where
  "rows_to_delete today records =
     concat (map (\<lambda>(uid, rows_u). snd (clean_group today rows_u)) (clean_by_user records))"

text \<open>
  The rows that the pass files under an identity: row \<open>idx\<close> of the worksheet (the data rows
  start at row 2) belongs to \<open>uid\<close> and has the parsed period end \<open>e\<close>.
\<close>

definition row_of :: "sheet_record list \<Rightarrow> int \<Rightarrow> nat \<Rightarrow> date \<Rightarrow> bool" where
  "row_of records uid idx e =
     (2 \<le> idx \<and> idx < 2 + length records \<and> row_uid (records ! (idx - 2)) = Some uid \<and>
      row_end (records ! (idx - 2)) = Some e)"

text \<open>
  The ledger of the scenario of the specification, as \<^verbatim>\<open>get_all_records()\<close> returns it:
  the rows (u=1, end=2025-03-20), (u=1, end=2025-01-10) and (u=2, end=2024-12-01).
\<close>

definition scenario_records :: "sheet_record list" where
  "scenario_records =
     [[''user_id'' \<mapsto> PInt 1, data_okonchaniya \<mapsto> PStr ''2025-03-20''],
      [''user_id'' \<mapsto> PInt 1, data_okonchaniya \<mapsto> PStr ''2025-01-10''],
      [''user_id'' \<mapsto> PInt 2, data_okonchaniya \<mapsto> PStr ''2024-12-01'']]"

section \<open>Broadcast (/broadcast)\<close>

definition broadcast_uid :: "nat \<Rightarrow> string list \<Rightarrow> int option" where
  \<comment> \<open>\<^verbatim>\<open>raw = (r[i_uid] or "").strip() if i_uid < len(r) else ""\<close>; an empty \<^verbatim>\<open>raw\<close> and
      one that is not an integer are skipped\<close>
  "broadcast_uid i_uid r =
     (let raw = (if i_uid < length r then strip (r ! i_uid) else [])
      in if raw = [] then None else py_int raw)"

fun broadcast_scan :: "nat \<Rightarrow> string list list \<Rightarrow> int set \<Rightarrow> int list \<Rightarrow> int list" where
  "broadcast_scan i_uid [] seen targets = targets"
| "broadcast_scan i_uid (r # data) seen targets =
     (case broadcast_uid i_uid r of
        None \<Rightarrow> broadcast_scan i_uid data seen targets
      | Some uid \<Rightarrow>
          if uid \<in> seen then broadcast_scan i_uid data seen targets
          else broadcast_scan i_uid data (insert uid seen) (targets @ [uid]))"

definition broadcast_targets :: "nat \<Rightarrow> string list list \<Rightarrow> int list" where
  "broadcast_targets i_uid data = broadcast_scan i_uid data {} []"

text \<open>
  What \<^verbatim>\<open>send_message\<close> does for a recipient: it returns, raises \<^verbatim>\<open>Forbidden\<close> or raises
  another \<^verbatim>\<open>TelegramError\<close>. The loop is observed through the calls it makes: a message
  sent to a recipient, a warning written to the log, a pause of one second.
\<close>

datatype send_result = Delivered | Forbidden | TelegramError

datatype event = SendMessage int | LogWarning int | Sleep

definition broadcast_step :: "(int \<Rightarrow> send_result) \<Rightarrow> nat \<times> int \<Rightarrow> event list" where
  "broadcast_step send p =
     (case p of (idx, uid) \<Rightarrow>
        SendMessage uid # (if send uid = TelegramError then [LogWarning uid] else []) @
        (if idx mod 12 = 0 then [Sleep] else []))"

fun broadcast_loop ::
  "(int \<Rightarrow> send_result) \<Rightarrow> (nat \<times> int) list \<Rightarrow> nat \<times> nat \<times> event list \<Rightarrow> nat \<times> nat \<times> event list" where
  "broadcast_loop send [] st = st"
| "broadcast_loop send ((idx, uid) # rest) (sent, failed, ev) =
     broadcast_loop send rest
       (case send uid of
          Delivered \<Rightarrow> (sent + 1, failed, ev @ broadcast_step send (idx, uid))
        | Forbidden \<Rightarrow> (sent, failed + 1, ev @ broadcast_step send (idx, uid))
        | TelegramError \<Rightarrow> (sent, failed + 1, ev @ broadcast_step send (idx, uid)))"

definition broadcast_run :: "(int \<Rightarrow> send_result) \<Rightarrow> int list \<Rightarrow> nat \<times> nat \<times> event list" where
  "broadcast_run send targets = broadcast_loop send (enumerate 1 targets) (0, 0, [])"

datatype broadcast_outcome =
  Broadcast_Usage
| Broadcast_IndexError
| Broadcast_Need_Column
| Broadcast_No_Recipients
| Broadcast_Done nat nat nat "event list"

text \<open>
  The handler, for the authorised operator and a ledger that can be read; \<open>text\<close> is the
  message after the command word, stripped. The report carries the numbers sent, failed
  and in total.
\<close>

definition broadcast :: "(int \<Rightarrow> send_result) \<Rightarrow> string \<Rightarrow> sheet \<Rightarrow> broadcast_outcome" where
  "broadcast send text rows =
     (if text = [] then Broadcast_Usage
      else (case rows of
              [] \<Rightarrow> Broadcast_IndexError
            | headers # data \<Rightarrow>
                (case find_col (row_values 1 rows) ''user_id'' of
                   None \<Rightarrow> Broadcast_Need_Column
                 | Some i_uid \<Rightarrow>
                     (let targets = broadcast_targets i_uid data in
                      if targets = [] then Broadcast_No_Recipients
                      else (case broadcast_run send targets of
                              (sent, failed, ev) \<Rightarrow>
                                Broadcast_Done sent failed (length targets) ev)))))"

text \<open>
  The order the specification asks of the recipients: every identity once, at the place
  of its first occurrence.
\<close>

fun first_occurrences :: "'a list \<Rightarrow> 'a list" where
  "first_occurrences [] = []"
| "first_occurrences (x # xs) = x # first_occurrences (removeAll x xs)"

fun is_send :: "event \<Rightarrow> bool" where
  "is_send (SendMessage u) = True"
| "is_send e = False"

section \<open>The authoritative row of an identity\<close>

text \<open>
  \<^verbatim>\<open>items_sorted[0]\<close>, the row that the slice \<^verbatim>\<open>items_sorted[1:]\<close> of the duplicate
  removal leaves out, and the row of the worksheet that it stands for.
\<close>

definition kept_item :: "(nat \<times> date option) list \<Rightarrow> nat \<times> date option" where
  "kept_item items = hd (py_sorted_reverse purge_key items)"

definition purge_row_of :: "nat \<Rightarrow> nat \<Rightarrow> string list list \<Rightarrow> int \<Rightarrow> nat \<Rightarrow> date option \<Rightarrow> bool" where
  "purge_row_of i_uid i_pu data uid idx pu =
     (2 \<le> idx \<and> idx < 2 + length data \<and> purge_uid i_uid (data ! (idx - 2)) = Some uid \<and>
      pu = purge_pu i_pu (data ! (idx - 2)))"

definition authoritative_row :: "sheet \<Rightarrow> int \<Rightarrow> string list option" where
  "authoritative_row rows uid =
     (case rows of
        [] \<Rightarrow> None
      | headers # data \<Rightarrow>
          (case (find_col (row_values 1 rows) ''user_id'',
                 find_col (row_values 1 rows) data_okonchaniya) of
             (Some i_uid, Some i_pu) \<Rightarrow>
               (case map_of (purge_per_uid i_uid i_pu data) uid of
                  None \<Rightarrow> None
                | Some items \<Rightarrow> Some (data ! (fst (kept_item items) - 2)))
           | _ \<Rightarrow> None))"

text \<open>
  The data rows that are left when the rows with the numbers in \<open>M\<close> are deleted.
\<close>

definition surviving :: "nat set \<Rightarrow> string list list \<Rightarrow> string list list" where
  "surviving M data = map snd (filter (\<lambda>p. fst p \<notin> M) (enumerate 2 data))"

section \<open>Audit (/audit): the in\_channel column\<close>











section \<open>The ledger as the handlers search and write it\<close>

text \<open>
  \<^verbatim>\<open>findall(text)\<close> returns the cells of the worksheet whose text equals the query, in
  any column, row by row; a cell is given by its row and column numbers, from 1.
  \<^verbatim>\<open>update\<close> on the range of one row overwrites the first cells of row \<open>r\<close> with the
  values (in an empty worksheet row 1 is created), and \<^verbatim>\<open>append_row\<close> adds a row after
  the last one.
\<close>

definition findall :: "string \<Rightarrow> sheet \<Rightarrow> (nat \<times> nat) list" where
  "findall query sh =
     concat (map (\<lambda>(r, row). map (\<lambda>(c, v). (r, c)) (filter (\<lambda>(c, v). v = query) (enumerate 1 row)))
                 (enumerate 1 sh))"



section \<open>Gatekeeper (join requests)\<close>

text \<open>
  The calls that the handler makes to the membership system, in order. A call may raise;
  the ledger may raise too when it is read (\<open>None\<close>). Every exception inside the
  \<^verbatim>\<open>try\<close> block is answered with a decline.
\<close>

datatype bot_call = Approve_join int | Decline_join int

definition on_join_request :: "sheet option \<Rightarrow> (bot_call \<Rightarrow> bool) \<Rightarrow> date \<Rightarrow> int \<Rightarrow> bot_call list" where
  "on_join_request ledger raises today uid =
     (case ledger of
        None \<Rightarrow> [Decline_join uid]
      | Some sh \<Rightarrow>
          (let cells = findall (py_str_int uid) sh;
               eligible = list_ex (\<lambda>c. row_is_paid (row_values 1 sh) today (row_values (fst c) sh)) cells;
               answer = (if eligible then Approve_join uid else Decline_join uid)
           in if raises answer then [answer, Decline_join uid] else [answer]))"

section \<open>Approval: the write to the ledger\<close>






section \<open>Properties of the subscription policy\<close>

lemma days_in_month_ge_28: "28 \<le> days_in_month y m"
  by (simp add: days_in_month_def)

text \<open>
  Claim C2, as the code has it. For every valid date \<open>today\<close> that is not in December of
  the year 9999 and every configured end day, \<open>calc_end_date\<close> returns a date: its month is
  the month after \<open>today\<close>'s (January of the next year after December) and its day is the
  end day clamped into 1..28. For 2025-01-15 with end day 20 it is 2025-02-20 and for
  2025-12-05 with end day 31 it is 2026-01-28.
\<close>

theorem calc_end_date_next_month:
  assumes "date_valid today"
    and "\<not> (year_of today = 9999 \<and> month_of today = 12)"
  shows "calc_end_date (Some end_day) today =
           Some (if month_of today = 12 then year_of today + 1 else year_of today,
                 if month_of today = 12 then 1 else month_of today + 1,
                 max 1 (min 28 end_day))
         \<and> calc_end_date (Some 20) (2025, 1, 15) = Some (2025, 2, 20)
         \<and> calc_end_date (Some 31) (2025, 12, 5) = Some (2026, 1, 28)"
proof -
  let ?y = "if month_of today = 12 then year_of today + 1 else year_of today"
  let ?m = "if month_of today = 12 then 1 else month_of today + 1"
  let ?d = "max 1 (min 28 end_day)"
  have clamp: "(if (if end_day < 1 then 1 else end_day) > 28 then 28
                else (if end_day < 1 then 1 else end_day)) = ?d"
    by (simp add: max_def min_def)
  have y: "1 \<le> ?y \<and> ?y \<le> 9999"
    using assms by (auto simp: date_valid_def)
  have m: "1 \<le> ?m \<and> ?m \<le> 12"
    using assms by (auto simp: date_valid_def)
  have d: "1 \<le> ?d \<and> ?d \<le> days_in_month ?y ?m"
    using days_in_month_ge_28 [of ?y ?m] by (simp add: max_def min_def)
  have "date_valid (?y, ?m, ?d)"
    using y m d unfolding date_valid_def year_of_def month_of_def day_of_def fst_conv snd_conv
    by blast
  then have general: "calc_end_date (Some end_day) today = Some (?y, ?m, ?d)"
    unfolding calc_end_date_def Let_def mk_date_def option.case clamp by simp
  have ex1: "calc_end_date (Some 20) (2025, 1, 15) = Some (2025, 2, 20)"
    by (simp add: calc_end_date_def mk_date_def date_valid_def year_of_def month_of_def
        day_of_def days_in_month_def is_leap_def)
  have ex2: "calc_end_date (Some 31) (2025, 12, 5) = Some (2026, 1, 28)"
    by (simp add: calc_end_date_def mk_date_def date_valid_def year_of_def month_of_def
        day_of_def days_in_month_def is_leap_def)
  from general ex1 ex2 show ?thesis by blast
qed

theorem calc_end_date_next_month_witness:
  "date_valid (2024, 12, 31) \<and> calc_end_date (Some 0) (2024, 12, 31) = Some (2025, 1, 1)"
proof -
  have v: "date_valid (2024, 12, 31)"
    by (simp add: date_valid_def year_of_def month_of_def day_of_def days_in_month_def)
  have n: "\<not> (year_of (2024, 12, 31) = 9999 \<and> month_of (2024, 12, 31) = 12)"
    by (simp add: year_of_def)
  show ?thesis
    using v calc_end_date_next_month [OF v n, of 0]
    by (simp add: year_of_def month_of_def)
qed

text \<open>
  In December of the year 9999 the target year is 10000, which \<^verbatim>\<open>date\<close> refuses: the
  call raises ValueError and returns no date.
\<close>

theorem calc_end_date_year_9999_counterexample:
  "date_valid (9999, 12, 5) \<and> calc_end_date (Some 20) (9999, 12, 5) = None"
  by (simp add: calc_end_date_def mk_date_def date_valid_def year_of_def month_of_def
      day_of_def days_in_month_def is_leap_def)

section \<open>Properties of the eligibility evaluation\<close>

lemmas header_eval =
  find_col_def aliases_of_def HEADER_ALIASES_def data_okonchaniya_def data_okonchaniya_sp_def
  data_oplaty_def data_oplaty_sp_def status_ru_def telefon_def

lemma strip_Nil: "strip [] = []"
  by (simp add: strip_def)

lemma parse_sheet_date_blank: "strip v = [] \<Longrightarrow> parse_sheet_date (PStr v) = None"
  by (simp add: parse_sheet_date_def)

text \<open>
  Claim C8. A row is eligible exactly when its period-end cell (the cell of the column
  found for the period-end header) parses to a date that is on or after the as-of date.
  A value that does not parse, the empty and the blank value among them, is never
  eligible, whatever the as-of date.
\<close>

theorem row_is_paid_iff:
  "(row_is_paid headers today row_vals \<longleftrightarrow>
      (\<exists>idx pu. find_col headers data_okonchaniya = Some idx \<and> idx < length row_vals \<and>
                parse_sheet_date (PStr (row_vals ! idx)) = Some pu \<and> today \<le> pu))
   \<and> (\<forall>idx. find_col headers data_okonchaniya = Some idx \<and> idx < length row_vals \<and>
             parse_sheet_date (PStr (row_vals ! idx)) = None
          \<longrightarrow> \<not> row_is_paid headers today row_vals)
   \<and> parse_sheet_date (PStr []) = None"
  by (auto simp: row_is_paid_def parse_sheet_date_blank strip_Nil split: option.splits)

text \<open>
  The period end 2025-03-01 is eligible on 2025-03-01 and not on 2025-03-02; it is read
  the same with a no-break space after it, with a year in full-width digits and in the
  form 01.03.2025. A word, the empty text and a text of white space are never eligible.
\<close>

theorem row_is_paid_iff_witness:
  "row_is_paid [''user_id'', ''end_date''] (2025, 3, 1) [''7'', ''2025-03-01'']
   \<and> \<not> row_is_paid [''user_id'', ''end_date''] (2025, 3, 2) [''7'', ''2025-03-01'']
   \<and> row_is_paid [''user_id'', ''end_date''] (2025, 3, 1) [''7'', ''2025-03-01'' @ [CHR 0xC2, CHR 0xA0]]
   \<and> row_is_paid [''user_id'', ''end_date''] (2025, 3, 1)
         [''7'', [CHR 0xEF, CHR 0xBC, CHR 0x92, CHR 0xEF, CHR 0xBC, CHR 0x90,
                  CHR 0xEF, CHR 0xBC, CHR 0x92, CHR 0xEF, CHR 0xBC, CHR 0x95] @ ''-03-01'']
   \<and> row_is_paid [''user_id'', ''end_date''] (2025, 3, 1) [''7'', ''01.03.2025'']
   \<and> \<not> row_is_paid [''user_id'', ''end_date''] (2025, 3, 1) [''7'', ''soon'']
   \<and> \<not> row_is_paid [''user_id'', ''end_date''] (2025, 3, 1) [''7'', '''']
   \<and> \<not> row_is_paid [''user_id'', ''end_date''] (2025, 3, 1) [''7'', [CHR 0xC2, CHR 0xA0, CHR '' '']]"
proof -
  let ?H = "[''user_id'', ''end_date'']"
  let ?fw = "[CHR 0xEF, CHR 0xBC, CHR 0x92, CHR 0xEF, CHR 0xBC, CHR 0x90,
              CHR 0xEF, CHR 0xBC, CHR 0x92, CHR 0xEF, CHR 0xBC, CHR 0x95] @ ''-03-01''"
  have c: "find_col ?H data_okonchaniya = Some 1" by code_simp
  have yes: "row_is_paid ?H (2025, 3, 1) [''7'', v]"
    if "parse_sheet_date (PStr v) = Some (2025, 3, 1)" for v
  proof -
    have "find_col ?H data_okonchaniya = Some 1 \<and> 1 < length [''7'', v] \<and>
          parse_sheet_date (PStr ([''7'', v] ! 1)) = Some (2025, 3, 1) \<and>
          (2025, 3, 1) \<le> ((2025, 3, 1) :: date)"
      using c that by simp
    then show ?thesis
      using row_is_paid_iff [of ?H "(2025, 3, 1)" "[''7'', v]"] by blast
  qed
  have no: "\<not> row_is_paid ?H (2025, 3, 1) [''7'', v]"
    if "parse_sheet_date (PStr v) = None" for v
  proof -
    have "find_col ?H data_okonchaniya = Some 1 \<and> 1 < length [''7'', v] \<and>
          parse_sheet_date (PStr ([''7'', v] ! 1)) = None"
      using c that by simp
    then show ?thesis
      using row_is_paid_iff [of ?H "(2025, 3, 1)" "[''7'', v]"] by blast
  qed
  have p1: "parse_sheet_date (PStr ''2025-03-01'') = Some (2025, 3, 1)" by code_simp
  have p2: "parse_sheet_date (PStr (''2025-03-01'' @ [CHR 0xC2, CHR 0xA0])) = Some (2025, 3, 1)"
    by code_simp
  have p3: "parse_sheet_date (PStr ?fw) = Some (2025, 3, 1)" by code_simp
  have p4: "parse_sheet_date (PStr ''01.03.2025'') = Some (2025, 3, 1)" by code_simp
  have n1: "parse_sheet_date (PStr ''soon'') = None" by code_simp
  have n2: "parse_sheet_date (PStr '''') = None" by code_simp
  have n3: "parse_sheet_date (PStr [CHR 0xC2, CHR 0xA0, CHR '' '']) = None" by code_simp
  have late: "\<not> row_is_paid ?H (2025, 3, 2) [''7'', ''2025-03-01'']"
  proof -
    have "\<not> (\<exists>idx pu. find_col ?H data_okonchaniya = Some idx \<and>
                idx < length [''7'', ''2025-03-01''] \<and>
                parse_sheet_date (PStr ([''7'', ''2025-03-01''] ! idx)) = Some pu \<and>
                (2025, 3, 2) \<le> pu)"
    proof
      assume "\<exists>idx pu. find_col ?H data_okonchaniya = Some idx \<and>
                idx < length [''7'', ''2025-03-01''] \<and>
                parse_sheet_date (PStr ([''7'', ''2025-03-01''] ! idx)) = Some pu \<and>
                (2025, 3, 2) \<le> pu"
      then obtain idx pu where a: "find_col ?H data_okonchaniya = Some idx"
          "parse_sheet_date (PStr ([''7'', ''2025-03-01''] ! idx)) = Some pu" "(2025, 3, 2) \<le> pu"
        by blast
      from a(1) c have "idx = 1" by simp
      with a(2) p1 have "pu = (2025, 3, 1)" by simp
      with a(3) show False by simp
    qed
    then show ?thesis
      using row_is_paid_iff [of ?H "(2025, 3, 2)" "[''7'', ''2025-03-01'']"] by blast
  qed
  from yes [OF p1] late yes [OF p2] yes [OF p3] yes [OF p4] no [OF n1] no [OF n2] no [OF n3]
  show ?thesis by (intro conjI)
qed

section \<open>Properties of the grouping by identity\<close>

lemma dict_append_keys:
  "map fst (dict_append k v d) = (if k \<in> fst ` set d then map fst d else map fst d @ [k])"
proof (induction d)
  case Nil
  then show ?case by simp
next
  case (Cons p d)
  obtain k' vs where p: "p = (k', vs)" by (cases p)
  show ?case using Cons.IH by (auto simp: p)
qed

lemma dict_append_distinct:
  "distinct (map fst d) \<Longrightarrow> distinct (map fst (dict_append k v d))"
  by (simp add: dict_append_keys)

lemma dict_append_map_of:
  "map_of (dict_append k v d) k' = (if k' = k then Some (lookup_list d k @ [v]) else map_of d k')"
  by (induction d) (auto simp: lookup_list_def)

lemma fold_dict_append_distinct:
  "distinct (map fst d) \<Longrightarrow> distinct (map fst (fold (\<lambda>(k, v) d. dict_append k v d) kvs d))"
  by (induction kvs arbitrary: d) (auto simp: dict_append_distinct)

lemma fold_dict_append_lookup:
  "lookup_list (fold (\<lambda>(k, v) d. dict_append k v d) kvs d) k =
     lookup_list d k @ map snd (filter (\<lambda>p. fst p = k) kvs)"
proof (induction kvs arbitrary: d)
  case Nil
  then show ?case by simp
next
  case (Cons p kvs)
  obtain k' v where p: "p = (k', v)" by (cases p)
  have "lookup_list (dict_append k' v d) k = lookup_list d k @ (if k' = k then [v] else [])"
    by (simp add: lookup_list_def dict_append_map_of)
  then show ?case using Cons.IH [of "dict_append k' v d"] by (simp add: p)
qed

lemma fold_dict_append_dom:
  "fst ` set (fold (\<lambda>(k, v) d. dict_append k v d) kvs d) = fst ` set d \<union> fst ` set kvs"
proof (induction kvs arbitrary: d)
  case Nil
  then show ?case by simp
next
  case (Cons p kvs)
  obtain k' v where p: "p = (k', v)" by (cases p)
  have "fst ` set (dict_append k' v d) = insert k' (fst ` set d)"
    using dict_append_keys [of k' v d] 
    by (metis (no_types, lifting) Un_insert_right append_Nil2 insert_absorb list.set(2) list.set_map set_append)
  then show ?case using Cons.IH [of "dict_append k' v d"] by (auto simp: p)
qed

lemma group_pairs_distinct: "distinct (map fst (group_pairs kvs))"
  unfolding group_pairs_def by (rule fold_dict_append_distinct) simp

lemma group_pairs_mem:
  "(k, vs) \<in> set (group_pairs kvs) \<longleftrightarrow>
     vs = map snd (filter (\<lambda>p. fst p = k) kvs) \<and> vs \<noteq> []"
proof -
  let ?d = "group_pairs kvs"
  have look: "lookup_list ?d k = map snd (filter (\<lambda>p. fst p = k) kvs)"
    using fold_dict_append_lookup [of kvs "[]" k] by (simp add: group_pairs_def lookup_list_def)
  have dom: "fst ` set ?d = fst ` set kvs"
    unfolding group_pairs_def by (simp add: fold_dict_append_dom)
  show ?thesis
  proof
    assume m: "(k, vs) \<in> set ?d"
    then have "map_of ?d k = Some vs" by (rule map_of_is_SomeI [OF group_pairs_distinct])
    then have vs: "vs = map snd (filter (\<lambda>p. fst p = k) kvs)" using look by (simp add: lookup_list_def)
    from m have "k \<in> fst ` set kvs" using dom by force
    then have "filter (\<lambda>p. fst p = k) kvs \<noteq> []" by (auto simp: filter_empty_conv)
    with vs show "vs = map snd (filter (\<lambda>p. fst p = k) kvs) \<and> vs \<noteq> []" by simp
  next
    assume a: "vs = map snd (filter (\<lambda>p. fst p = k) kvs) \<and> vs \<noteq> []"
    then have "k \<in> fst ` set kvs" by (auto simp: filter_empty_conv)
    then have "k \<in> fst ` set ?d" using dom by simp
    then obtain ws where w: "(k, ws) \<in> set ?d" by force
    then have "map_of ?d k = Some ws" by (rule map_of_is_SomeI [OF group_pairs_distinct])
    then have "ws = vs" using look a by (simp add: lookup_list_def)
    with w show "(k, vs) \<in> set ?d" by simp
  qed
qed

section \<open>Properties of the removal of expired subscribers\<close>

lemma set_map_filter: "set (List.map_filter f xs) = {y. \<exists>x \<in> set xs. f x = Some y}"
  by (induction xs) (auto simp: List.map_filter_simps split: option.splits)

lemma clean_items_mem:
  "(uid, idx, e) \<in> set (List.map_filter clean_item (enumerate 2 records)) \<longleftrightarrow>
     row_of records uid idx e"
proof
  assume "(uid, idx, e) \<in> set (List.map_filter clean_item (enumerate 2 records))"
  then obtain j r where jr: "(j, r) \<in> set (enumerate 2 records)" "clean_item (j, r) = Some (uid, idx, e)"
    by (auto simp: set_map_filter)
  from jr(1) have j: "2 \<le> j" "j < 2 + length records" "records ! (j - 2) = r"
    by (auto simp: in_set_enumerate_eq)
  from jr(2) have "idx = j" "row_uid r = Some uid" "row_end r = Some e"
    by (auto simp: clean_item_def split: option.splits)
  with j show "row_of records uid idx e"
    by (simp add: row_of_def)
next
  assume "row_of records uid idx e"
  then have i: "2 \<le> idx" "idx < 2 + length records" "row_uid (records ! (idx - 2)) = Some uid"
    "row_end (records ! (idx - 2)) = Some e" by (simp_all add: row_of_def)
  then have "(idx, records ! (idx - 2)) \<in> set (enumerate 2 records)"
    by (auto simp: in_set_enumerate_eq)
  moreover have "clean_item (idx, records ! (idx - 2)) = Some (uid, idx, e)"
    using i by (simp add: clean_item_def)
  ultimately show "(uid, idx, e) \<in> set (List.map_filter clean_item (enumerate 2 records))"
    by (auto simp: set_map_filter)
qed

lemma clean_by_user_mem:
  assumes "(uid, rows_u) \<in> set (clean_by_user records)"
  shows "rows_u \<noteq> []" and "(idx, e) \<in> set rows_u \<longleftrightarrow> row_of records uid idx e"
proof -
  from assms have r: "rows_u = map snd (filter (\<lambda>p. fst p = uid)
                   (List.map_filter clean_item (enumerate 2 records)))" and ne: "rows_u \<noteq> []"
    by (auto simp: clean_by_user_def group_pairs_mem)
  show "rows_u \<noteq> []" by (rule ne)
  have "(idx, e) \<in> set rows_u \<longleftrightarrow>
          (uid, idx, e) \<in> set (List.map_filter clean_item (enumerate 2 records))"
    unfolding r by force
  then show "(idx, e) \<in> set rows_u \<longleftrightarrow> row_of records uid idx e"
    by (simp add: clean_items_mem)
qed

lemma clean_by_user_has_group:
  assumes "row_of records uid idx e"
  shows "\<exists>rows_u. (uid, rows_u) \<in> set (clean_by_user records)"
proof -
  let ?items = "List.map_filter clean_item (enumerate 2 records)"
  have "(uid, idx, e) \<in> set ?items" using assms by (simp add: clean_items_mem)
  then have "map snd (filter (\<lambda>p. fst p = uid) ?items) \<noteq> []"
    by (force simp: filter_empty_conv)
  then show ?thesis by (auto simp: clean_by_user_def group_pairs_mem)
qed

lemma row_of_unique: "row_of records uid idx e \<Longrightarrow> row_of records uid' idx e' \<Longrightarrow> uid' = uid \<and> e' = e"
  by (simp add: row_of_def)

lemma clean_group_kick:
  assumes "rows_u \<noteq> []"
  shows "fst (clean_group today rows_u) \<longleftrightarrow>
           (\<forall>idx e. (idx, e) \<in> set rows_u \<longrightarrow> e < month_start today)"
proof -
  have ne: "snd ` set rows_u \<noteq> {}" using assms by simp
  have "fst (clean_group today rows_u) \<longleftrightarrow> Max (snd ` set rows_u) < month_start today"
    by (simp add: clean_group_def py_sorted_def Let_def)
  also have "\<dots> \<longleftrightarrow> (\<forall>e \<in> snd ` set rows_u. e < month_start today)"
    using ne by (simp add: Max_less_iff)
  also have "\<dots> \<longleftrightarrow> (\<forall>idx e. (idx, e) \<in> set rows_u \<longrightarrow> e < month_start today)"
    by force
  finally show ?thesis .
qed

lemma clean_group_rows:
  assumes "rows_u \<noteq> []"
  shows "idx \<in> set (snd (clean_group today rows_u)) \<longleftrightarrow>
           (\<exists>e. (idx, e) \<in> set rows_u \<and>
              (fst (clean_group today rows_u) \<or> (\<exists>idx' e'. (idx', e') \<in> set rows_u \<and> e < e')))"
proof -
  have ne: "snd ` set rows_u \<noteq> {}" using assms by simp
  have gr: "e < Max (snd ` set rows_u) \<longleftrightarrow> (\<exists>idx' e'. (idx', e') \<in> set rows_u \<and> e < e')" for e
  proof -
    have "e < Max (snd ` set rows_u) \<longleftrightarrow> (\<exists>a \<in> snd ` set rows_u. e < a)"
      using ne by (simp add: Max_gr_iff)
    also have "\<dots> \<longleftrightarrow> (\<exists>idx' e'. (idx', e') \<in> set rows_u \<and> e < e')"
      by force
    finally show ?thesis .
  qed
  have s: "set (snd (clean_group today rows_u)) =
             (if fst (clean_group today rows_u) then fst ` set rows_u
              else fst ` {x \<in> set rows_u. snd x < Max (snd ` set rows_u)})"
    by (simp add: clean_group_def py_sorted_def Let_def)
  show ?thesis
  proof (cases "fst (clean_group today rows_u)")
    case True
    have "idx \<in> fst ` set rows_u \<longleftrightarrow> (\<exists>e. (idx, e) \<in> set rows_u)"
      by force
    then show ?thesis using True by (simp add: s)
  next
    case False
    have "idx \<in> fst ` {x \<in> set rows_u. snd x < Max (snd ` set rows_u)} \<longleftrightarrow>
            (\<exists>e. (idx, e) \<in> set rows_u \<and> e < Max (snd ` set rows_u))"
      by force
    then show ?thesis using False by (simp add: s gr)
  qed
qed


lemma users_to_kick_iff:
  "uid \<in> set (users_to_kick today records) \<longleftrightarrow>
     (\<exists>idx e. row_of records uid idx e) \<and>
     (\<forall>idx e. row_of records uid idx e \<longrightarrow> e < month_start today)"
proof
  assume "uid \<in> set (users_to_kick today records)"
  then obtain rows_u where g: "(uid, rows_u) \<in> set (clean_by_user records)"
      and k: "fst (clean_group today rows_u)"
    by (auto simp: users_to_kick_def)
  from clean_by_user_mem [OF g] have ne: "rows_u \<noteq> []"
    and m: "\<And>idx e. (idx, e) \<in> set rows_u \<longleftrightarrow> row_of records uid idx e" by auto
  from ne obtain idx e where "(idx, e) \<in> set rows_u" by (cases rows_u) auto
  then have "\<exists>idx e. row_of records uid idx e" using m by blast
  moreover have "\<forall>idx e. row_of records uid idx e \<longrightarrow> e < month_start today"
    using k clean_group_kick [OF ne, of today] m by blast
  ultimately show "(\<exists>idx e. row_of records uid idx e) \<and>
     (\<forall>idx e. row_of records uid idx e \<longrightarrow> e < month_start today)" by blast
next
  assume a: "(\<exists>idx e. row_of records uid idx e) \<and>
     (\<forall>idx e. row_of records uid idx e \<longrightarrow> e < month_start today)"
  then obtain rows_u where g: "(uid, rows_u) \<in> set (clean_by_user records)"
    using clean_by_user_has_group by blast
  from clean_by_user_mem [OF g] have ne: "rows_u \<noteq> []"
    and m: "\<And>idx e. (idx, e) \<in> set rows_u \<longleftrightarrow> row_of records uid idx e" by auto
  have "fst (clean_group today rows_u)"
    using a clean_group_kick [OF ne, of today] m by blast
  with g show "uid \<in> set (users_to_kick today records)"
    by (force simp: users_to_kick_def)
qed

lemma rows_to_delete_iff:
  "idx \<in> set (rows_to_delete today records) \<longleftrightarrow>
     (\<exists>uid e. row_of records uid idx e \<and>
        (uid \<in> set (users_to_kick today records) \<or>
         (\<exists>idx' e'. row_of records uid idx' e' \<and> e < e')))"
proof
  assume "idx \<in> set (rows_to_delete today records)"
  then obtain uid rows_u where g: "(uid, rows_u) \<in> set (clean_by_user records)"
      and i: "idx \<in> set (snd (clean_group today rows_u))"
    by (auto simp: rows_to_delete_def)
  from clean_by_user_mem [OF g] have ne: "rows_u \<noteq> []"
    and m: "\<And>idx e. (idx, e) \<in> set rows_u \<longleftrightarrow> row_of records uid idx e" by auto
  from i clean_group_rows [OF ne, of idx today] obtain e where e: "(idx, e) \<in> set rows_u"
    and c: "fst (clean_group today rows_u) \<or> (\<exists>idx' e'. (idx', e') \<in> set rows_u \<and> e < e')"
    by blast
  have "fst (clean_group today rows_u) \<Longrightarrow> uid \<in> set (users_to_kick today records)"
    using g by (force simp: users_to_kick_def)
  with e c m show "\<exists>uid e. row_of records uid idx e \<and>
        (uid \<in> set (users_to_kick today records) \<or>
         (\<exists>idx' e'. row_of records uid idx' e' \<and> e < e'))" by blast
next
  assume "\<exists>uid e. row_of records uid idx e \<and>
        (uid \<in> set (users_to_kick today records) \<or>
         (\<exists>idx' e'. row_of records uid idx' e' \<and> e < e'))"
  then obtain uid e where r: "row_of records uid idx e"
    and c: "uid \<in> set (users_to_kick today records) \<or>
         (\<exists>idx' e'. row_of records uid idx' e' \<and> e < e')" by blast
  from r obtain rows_u where g: "(uid, rows_u) \<in> set (clean_by_user records)"
    using clean_by_user_has_group by blast
  from clean_by_user_mem [OF g] have ne: "rows_u \<noteq> []"
    and m: "\<And>idx e. (idx, e) \<in> set rows_u \<longleftrightarrow> row_of records uid idx e" by auto
  have k: "uid \<in> set (users_to_kick today records) \<Longrightarrow> fst (clean_group today rows_u)"
    using clean_group_kick [OF ne, of today] m users_to_kick_iff [of uid today records] by blast
  have "idx \<in> set (snd (clean_group today rows_u))"
    using clean_group_rows [OF ne, of idx today] r c k m by blast
  with g show "idx \<in> set (rows_to_delete today records)"
    by (force simp: rows_to_delete_def)
qed

text \<open>
  Claim C1, at a failing input. On 2025-03-25 the first day of the current month is
  2025-03-01; an identity whose only row ends on 2025-03-10 is not before it, and the
  pass removes the identity all the same, because it compares with the 19th of the month.
  On the scenario of the claim the pass, run on any day of March 2025, removes exactly
  u=2 and marks the row of 2025-01-10 (row 3) and the row of u=2 (row 4).
\<close>

theorem clean_cutoff_day_19_failing_input:
  "users_to_kick (2025, 3, 25)
     [[''user_id'' \<mapsto> PInt 1, data_okonchaniya \<mapsto> PStr ''2025-03-10'']] = [1]
   \<and> row_end [''user_id'' \<mapsto> PInt 1, data_okonchaniya \<mapsto> PStr ''2025-03-10''] = Some (2025, 3, 10)
   \<and> \<not> (2025, 3, 10) < ((2025, 3, 1) :: date)
   \<and> month_start (2025, 3, 25) = (2025, 3, 19)
   \<and> users_to_kick (2025, 3, 25) scenario_records = [2]
   \<and> rows_to_delete (2025, 3, 25) scenario_records = [3, 4]"
  by code_simp




section \<open>Properties of the broadcast\<close>

lemma first_occurrences_set: "set (first_occurrences xs) = set xs"
  by (induction xs rule: first_occurrences.induct) auto

lemma first_occurrences_distinct: "distinct (first_occurrences xs)"
  by (induction xs rule: first_occurrences.induct) (auto simp: first_occurrences_set)

lemma broadcast_scan_eq:
  "distinct targets \<Longrightarrow> seen = set targets \<Longrightarrow>
   broadcast_scan i_uid data seen targets =
     targets @ first_occurrences (filter (\<lambda>u. u \<notin> seen) (List.map_filter (broadcast_uid i_uid) data))"
proof (induction data arbitrary: seen targets)
  case Nil
  then show ?case by (simp add: List.map_filter_simps)
next
  case (Cons r data)
  show ?case
  proof (cases "broadcast_uid i_uid r")
    case None
    then show ?thesis using Cons by (simp add: List.map_filter_simps)
  next
    case (Some uid)
    show ?thesis
    proof (cases "uid \<in> seen")
      case True
      then show ?thesis using Cons Some by (simp add: List.map_filter_simps)
    next
      case False
      have d: "distinct (targets @ [uid])" using Cons.prems False by simp
      have s: "insert uid seen = set (targets @ [uid])" using Cons.prems by simp
      have f: "filter (\<lambda>u. u \<noteq> uid \<and> u \<notin> seen) xs = removeAll uid (filter (\<lambda>u. u \<notin> seen) xs)" for xs
        by (induction xs) auto
      show ?thesis
        using Cons.IH [OF d s] Some False by (simp add: List.map_filter_simps f)
    qed
  qed
qed

lemma broadcast_targets_eq:
  "broadcast_targets i_uid data = first_occurrences (List.map_filter (broadcast_uid i_uid) data)"
  using broadcast_scan_eq [of "[]" "{}" i_uid data] by (simp add: broadcast_targets_def)


lemma broadcast_loop_eq:
  "broadcast_loop send ps (sent, failed, ev) =
     (sent + length (filter (\<lambda>p. send (snd p) = Delivered) ps),
      failed + length (filter (\<lambda>p. send (snd p) \<noteq> Delivered) ps),
      ev @ concat (map (broadcast_step send) ps))"
proof (induction ps arbitrary: sent failed ev)
  case Nil
  then show ?case by simp
next
  case (Cons p ps)
  obtain idx uid where p: "p = (idx, uid)" by (cases p)
  show ?case by (cases "send uid") (simp_all add: p Cons.IH)
qed

lemma enumerate_snoc: "enumerate n (xs @ [x]) = enumerate n xs @ [(n + length xs, x)]"
  by (simp add: enumerate_append_eq)

lemma sleeps_count:
  "length (filter (\<lambda>e. e = Sleep) (concat (map (broadcast_step send) (enumerate 1 targets)))) =
     length targets div 12"
proof (induction targets rule: rev_induct)
  case Nil
  then show ?case by simp
next
  case (snoc x xs)
  have "Suc (length xs) div 12 = length xs div 12 + (if Suc (length xs) mod 12 = 0 then 1 else 0)"
    by presburger
  then show ?case using snoc by (simp add: enumerate_snoc broadcast_step_def)
qed

lemma sends_in_order:
  "filter is_send (concat (map (broadcast_step send) ps)) =
     map (\<lambda>p. SendMessage (snd p)) ps"
  by (induction ps) (auto simp: broadcast_step_def)

lemma log_iff:
  "LogWarning u \<in> set (concat (map (broadcast_step send) ps)) \<longleftrightarrow>
     (u \<in> snd ` set ps \<and> send u = TelegramError)"
  by (induction ps) (auto simp: broadcast_step_def)


text \<open>
  Claim C9, as the code has it. The recipients are the identities of the snapshot, each
  once, in the order of their first occurrence. The loop sends one message to each of
  them in that order, whatever the earlier sends did; it counts every send that raised as
  failed, and writes a warning to the log for a failure other than \<^verbatim>\<open>Forbidden\<close>, for
  which it writes nothing. It pauses right after the send to every recipient whose
  position is a multiple of 12.
\<close>

theorem broadcast_dispatch:
  assumes "broadcast_run send (broadcast_targets i_uid data) = (sent, failed, ev)"
  shows "broadcast_targets i_uid data =
           first_occurrences (List.map_filter (broadcast_uid i_uid) data)
         \<and> distinct (broadcast_targets i_uid data)
         \<and> filter is_send ev = map SendMessage (broadcast_targets i_uid data)
         \<and> sent = length (filter (\<lambda>u. send u = Delivered) (broadcast_targets i_uid data))
         \<and> failed = length (filter (\<lambda>u. send u \<noteq> Delivered) (broadcast_targets i_uid data))
         \<and> sent + failed = length (broadcast_targets i_uid data)
         \<and> ev = concat (map (broadcast_step send) (enumerate 1 (broadcast_targets i_uid data)))
         \<and> length (filter (\<lambda>e. e = Sleep) ev) = length (broadcast_targets i_uid data) div 12
         \<and> (LogWarning u \<in> set ev \<longleftrightarrow>
              u \<in> set (broadcast_targets i_uid data) \<and> send u = TelegramError)"
proof -
  let ?t = "broadcast_targets i_uid data"
  let ?ps = "enumerate 1 ?t"
  have snd_ps: "map snd ?ps = ?t" by (rule map_snd_enumerate)
  have cnt: "length (filter (\<lambda>p. P (snd p)) ?ps) = length (filter P ?t)" for P
  proof -
    have "length (filter (\<lambda>p. P (snd p)) ps) = length (filter P (map snd ps))" for ps :: "(nat \<times> int) list"
      by (induction ps) auto
    from this [of ?ps] show ?thesis by (simp only: snd_ps)
  qed
  have "broadcast_run send ?t = broadcast_loop send ?ps (0, 0, [])"
    by (simp only: broadcast_run_def)
  also have "\<dots> = (0 + length (filter (\<lambda>p. send (snd p) = Delivered) ?ps),
                    0 + length (filter (\<lambda>p. send (snd p) \<noteq> Delivered) ?ps),
                    [] @ concat (map (broadcast_step send) ?ps))"
    by (rule broadcast_loop_eq)
  also have "\<dots> = (length (filter (\<lambda>u. send u = Delivered) ?t),
                    length (filter (\<lambda>u. send u \<noteq> Delivered) ?t),
                    concat (map (broadcast_step send) ?ps))"
    by (simp only: cnt [of "\<lambda>u. send u = Delivered"] cnt [of "\<lambda>u. send u \<noteq> Delivered"]
        add_0 append_Nil)
  finally have run: "broadcast_run send ?t =
      (length (filter (\<lambda>u. send u = Delivered) ?t),
       length (filter (\<lambda>u. send u \<noteq> Delivered) ?t),
       concat (map (broadcast_step send) ?ps))" .
  with assms have eq: "(sent, failed, ev) =
      (length (filter (\<lambda>u. send u = Delivered) ?t),
       length (filter (\<lambda>u. send u \<noteq> Delivered) ?t),
       concat (map (broadcast_step send) ?ps))" by (simp only:)
  then have s: "sent = length (filter (\<lambda>u. send u = Delivered) ?t)"
    and f: "failed = length (filter (\<lambda>u. send u \<noteq> Delivered) ?t)"
    and e: "ev = concat (map (broadcast_step send) ?ps)"
    by blast+
  have total: "sent + failed = length ?t"
    unfolding s f using sum_length_filter_compl [of "\<lambda>u. send u = Delivered" ?t] by simp
  have sends: "filter is_send ev = map SendMessage ?t"
  proof -
    have "filter is_send ev = map (\<lambda>p. SendMessage (snd p)) ?ps"
      unfolding e by (rule sends_in_order)
    also have "\<dots> = map SendMessage (map snd ?ps)" by (simp only: map_map comp_def)
    finally show ?thesis by (simp only: snd_ps)
  qed
  have sleeps: "length (filter (\<lambda>e. e = Sleep) ev) = length ?t div 12"
    unfolding e by (rule sleeps_count)
  have logs: "LogWarning u \<in> set ev \<longleftrightarrow> u \<in> set ?t \<and> send u = TelegramError"
  proof -
    have "snd ` set ?ps = set ?t" using snd_ps by (metis list.set_map)
    then show ?thesis unfolding e by (simp only: log_iff)
  qed
  have first: "?t = first_occurrences (List.map_filter (broadcast_uid i_uid) data)"
    by (rule broadcast_targets_eq)
  have dist: "distinct ?t" unfolding first by (rule first_occurrences_distinct)
  from first dist sends s f total e sleeps logs show ?thesis by blast
qed

theorem broadcast_dispatch_witness:
  "broadcast_run (\<lambda>u. if u = 8 then TelegramError else Delivered)
     (broadcast_targets 0 [[''7''], [''8''], ['' 7 ''], [''x''], [''9'']]) =
       (2, 1, [SendMessage 7, SendMessage 8, LogWarning 8, SendMessage 9])
   \<and> broadcast_targets 0 [[''7''], [''8''], ['' 7 ''], [''x''], [''9'']] = [7, 8, 9]
   \<and> distinct (broadcast_targets 0 [[''7''], [''8''], ['' 7 ''], [''x''], [''9'']])
   \<and> filter is_send [SendMessage 7, SendMessage 8, LogWarning 8, SendMessage 9] =
        map SendMessage (broadcast_targets 0 [[''7''], [''8''], ['' 7 ''], [''x''], [''9'']])"
proof -
  have r: "broadcast_run (\<lambda>u. if u = 8 then TelegramError else Delivered)
     (broadcast_targets 0 [[''7''], [''8''], ['' 7 ''], [''x''], [''9'']]) =
       (2, 1, [SendMessage 7, SendMessage 8, LogWarning 8, SendMessage 9])"
    by code_simp
  have t: "broadcast_targets 0 [[''7''], [''8''], ['' 7 ''], [''x''], [''9'']] = [7, 8, 9]"
    by code_simp
  show ?thesis using broadcast_dispatch [OF r] r t by blast
qed

text \<open>
  A recipient who has blocked the bot: the send raises \<^verbatim>\<open>Forbidden\<close>, the failure is
  counted and no warning is logged.
\<close>

theorem broadcast_dispatch_counterexample:
  "broadcast_run (\<lambda>u. Forbidden) (broadcast_targets 0 [[''7'']]) = (0, 1, [SendMessage 7])
   \<and> LogWarning 7 \<notin> set [SendMessage 7]"
  by code_simp

section \<open>Properties of the removal of duplicate rows\<close>

lemma purge_item_idx: "purge_item i_uid i_pu (j, r) = Some (uid, idx, pu) \<Longrightarrow> idx = j"
  by (auto simp: purge_item_def split: option.splits)

lemma purge_item_Some:
  "purge_item i_uid i_pu (j, r) = Some (uid, idx, pu) \<longleftrightarrow>
     idx = j \<and> purge_uid i_uid r = Some uid \<and> pu = purge_pu i_pu r"
  by (auto simp: purge_item_def split: option.splits)

lemma purge_items_mem:
  "(uid, idx, pu) \<in> set (List.map_filter (purge_item i_uid i_pu) (enumerate 2 data)) \<longleftrightarrow>
     purge_row_of i_uid i_pu data uid idx pu"
proof
  assume "(uid, idx, pu) \<in> set (List.map_filter (purge_item i_uid i_pu) (enumerate 2 data))"
  then obtain j r where jr: "(j, r) \<in> set (enumerate 2 data)"
      "purge_item i_uid i_pu (j, r) = Some (uid, idx, pu)"
    by (auto simp: set_map_filter)
  from jr(1) have j: "2 \<le> j" "j < 2 + length data" "data ! (j - 2) = r"
    by (auto simp: in_set_enumerate_eq)
  from jr(2) have "idx = j" by (rule purge_item_idx)
  with j jr(2) show "purge_row_of i_uid i_pu data uid idx pu"
    by (simp add: purge_row_of_def purge_item_Some)
next
  assume a: "purge_row_of i_uid i_pu data uid idx pu"
  then have "(idx, data ! (idx - 2)) \<in> set (enumerate 2 data)"
    by (auto simp: in_set_enumerate_eq purge_row_of_def)
  moreover have "purge_item i_uid i_pu (idx, data ! (idx - 2)) = Some (uid, idx, pu)"
    using a by (simp add: purge_row_of_def purge_item_Some)
  ultimately show "(uid, idx, pu) \<in> set (List.map_filter (purge_item i_uid i_pu) (enumerate 2 data))"
    by (force simp: set_map_filter)
qed

lemma map_filter_keys:
  assumes "\<And>x y. f x = Some y \<Longrightarrow> g y = h x"
  shows "map g (List.map_filter f xs) = map h (filter (\<lambda>x. f x \<noteq> None) xs)"
  using assms by (induction xs) (auto simp: List.map_filter_simps split: option.splits)

lemma purge_items_distinct:
  "distinct (map (\<lambda>p. fst (snd p)) (List.map_filter (purge_item i_uid i_pu) (enumerate 2 data)))"
proof -
  have "map (\<lambda>p. fst (snd p)) (List.map_filter (purge_item i_uid i_pu) (enumerate 2 data)) =
        map fst (filter (\<lambda>x. purge_item i_uid i_pu x \<noteq> None) (enumerate 2 data))"
    by (rule map_filter_keys) (auto dest: purge_item_idx)
  moreover have "distinct (map fst (enumerate 2 data))" by (simp add: enumerate_eq_zip)
  ultimately show ?thesis by (simp add: distinct_map_filter)
qed

lemma purge_per_uid_mem:
  assumes "(uid, items) \<in> set (purge_per_uid i_uid i_pu data)"
  shows "items \<noteq> []" and "(idx, pu) \<in> set items \<longleftrightarrow> purge_row_of i_uid i_pu data uid idx pu"
    and "distinct (map fst items)"
proof -
  let ?kvs = "List.map_filter (purge_item i_uid i_pu) (enumerate 2 data)"
  from assms have r: "items = map snd (filter (\<lambda>p. fst p = uid) ?kvs)" and ne: "items \<noteq> []"
    by (auto simp: purge_per_uid_def group_pairs_mem)
  show "items \<noteq> []" by (rule ne)
  have "(idx, pu) \<in> set items \<longleftrightarrow> (uid, idx, pu) \<in> set ?kvs"
    unfolding r by force
  then show "(idx, pu) \<in> set items \<longleftrightarrow> purge_row_of i_uid i_pu data uid idx pu"
    by (simp add: purge_items_mem)
  have "map fst items = map (\<lambda>p. fst (snd p)) (filter (\<lambda>p. fst p = uid) ?kvs)"
    unfolding r by simp
  then show "distinct (map fst items)"
    using purge_items_distinct [of i_uid i_pu data] by (simp add: distinct_map_filter)
qed

lemma purge_per_uid_has_group:
  assumes "purge_row_of i_uid i_pu data uid idx pu"
  shows "\<exists>items. (uid, items) \<in> set (purge_per_uid i_uid i_pu data)"
proof -
  let ?kvs = "List.map_filter (purge_item i_uid i_pu) (enumerate 2 data)"
  have "(uid, idx, pu) \<in> set ?kvs" using assms by (simp add: purge_items_mem)
  then have "map snd (filter (\<lambda>p. fst p = uid) ?kvs) \<noteq> []"
    by (force simp: filter_empty_conv)
  then show ?thesis by (auto simp: purge_per_uid_def group_pairs_mem)
qed

lemma sorted_last_max:
  "sorted (map f ys) \<Longrightarrow> ys \<noteq> [] \<Longrightarrow> y \<in> set ys \<Longrightarrow> f y \<le> f (last ys)"
proof (induction ys)
  case Nil
  then show ?case by simp
next
  case (Cons a ys)
  then show ?case by (cases "ys = []") auto
qed

lemma kept_item_max:
  assumes "items \<noteq> []"
  shows "kept_item items \<in> set items"
    and "it \<in> set items \<Longrightarrow> purge_key it \<le> purge_key (kept_item items)"
proof -
  let ?s = "sort_key purge_key (rev items)"
  have ne: "?s \<noteq> []" using assms by (metis length_0_conv length_rev length_sort)
  have k: "kept_item items = last ?s"
    using ne by (simp add: kept_item_def py_sorted_reverse_def hd_rev)
  have "last ?s \<in> set ?s" using ne by (rule last_in_set)
  then show "kept_item items \<in> set items" using k by simp
  assume "it \<in> set items"
  then have "it \<in> set ?s" by simp
  then show "purge_key it \<le> purge_key (kept_item items)"
    unfolding k using sorted_last_max [of purge_key ?s it] ne by simp
qed

lemma purge_marks_set:
  assumes "1 < length items" "distinct (map fst items)"
  shows "set (purge_marks items) = fst ` set items - {fst (kept_item items)}"
proof -
  let ?s = "py_sorted_reverse purge_key items"
  have set_s: "set ?s = set items" by (simp add: py_sorted_reverse_def)
  have "distinct items" using assms(2) by (rule distinct_map [THEN iffD1, THEN conjunct1])
  then have d: "distinct ?s" by (simp add: py_sorted_reverse_def)
  have inj: "inj_on fst (set ?s)" using assms(2) set_s by (simp add: distinct_map)
  have ne: "?s \<noteq> []" using assms(1) set_s by (metis less_nat_zero_code list.size(3) set_empty)
  then have s: "?s = kept_item items # tl ?s" by (simp add: kept_item_def)
  have "distinct (kept_item items # tl ?s)" using d s by simp
  then have notin: "kept_item items \<notin> set (tl ?s)" by simp
  have sub: "set (tl ?s) = set ?s - {kept_item items}"
    using s notin by (metis Diff_insert_absorb list.simps(15))
  have k_in: "kept_item items \<in> set ?s" using s by (metis list.set_intros(1))
  have "fst ` set (tl ?s) = fst ` set ?s - {fst (kept_item items)}"
    unfolding sub using inj k_in by (auto simp: inj_on_def)
  then show ?thesis using assms(1) set_s by (simp add: purge_marks_def)
qed

lemma purge_to_delete_iff:
  "idx \<in> set (purge_to_delete i_uid i_pu data) \<longleftrightarrow>
     (\<exists>uid items. (uid, items) \<in> set (purge_per_uid i_uid i_pu data) \<and> 1 < length items \<and>
        idx \<in> fst ` set items \<and> idx \<noteq> fst (kept_item items))"
proof
  assume "idx \<in> set (purge_to_delete i_uid i_pu data)"
  then obtain uid items where g: "(uid, items) \<in> set (purge_per_uid i_uid i_pu data)"
      and i: "idx \<in> set (purge_marks items)"
    by (auto simp: purge_to_delete_def)
  from i have l: "1 < length items" by (auto simp: purge_marks_def split: if_splits)
  from purge_marks_set [OF l purge_per_uid_mem(3) [OF g]] i
  have "idx \<in> fst ` set items" "idx \<noteq> fst (kept_item items)" by auto
  with g l show "\<exists>uid items. (uid, items) \<in> set (purge_per_uid i_uid i_pu data) \<and> 1 < length items \<and>
        idx \<in> fst ` set items \<and> idx \<noteq> fst (kept_item items)" by blast
next
  assume "\<exists>uid items. (uid, items) \<in> set (purge_per_uid i_uid i_pu data) \<and> 1 < length items \<and>
        idx \<in> fst ` set items \<and> idx \<noteq> fst (kept_item items)"
  then obtain uid items where g: "(uid, items) \<in> set (purge_per_uid i_uid i_pu data)"
      and l: "1 < length items" and i: "idx \<in> fst ` set items" "idx \<noteq> fst (kept_item items)"
    by blast
  from purge_marks_set [OF l purge_per_uid_mem(3) [OF g]] i
  have "idx \<in> set (purge_marks items)" by simp
  with g show "idx \<in> set (purge_to_delete i_uid i_pu data)"
    by (force simp: purge_to_delete_def)
qed

text \<open>
  Claim C4, as the code has it. In the duplicate removal (/purge\_dups) the row kept for
  an identity with several rows is the one with the greatest pair (parsed period end, row
  number), a period end that does not parse counting as the least date, and exactly the
  other rows of the identity are marked. In the removal pass (/clean) a row of an
  identity that is not removed is marked exactly when its parsed period end is strictly
  before another parsed period end of the identity: rows that tie at the latest period
  end are all kept, and rows whose period end does not parse are not considered at all.
\<close>

theorem dedupe_rule:
  "((uid, items) \<in> set (purge_per_uid i_uid i_pu data) \<and> 1 < length items \<longrightarrow>
      kept_item items \<in> set items \<and>
      (\<forall>it \<in> set items. purge_key it \<le> purge_key (kept_item items)) \<and>
      set (purge_marks items) = fst ` set items - {fst (kept_item items)})
   \<and> (idx \<in> set (purge_to_delete i_uid i_pu data) \<longleftrightarrow>
        (\<exists>uid items. (uid, items) \<in> set (purge_per_uid i_uid i_pu data) \<and> 1 < length items \<and>
           idx \<in> fst ` set items \<and> idx \<noteq> fst (kept_item items)))
   \<and> (u \<notin> set (users_to_kick today records) \<and> row_of records u row e \<longrightarrow>
        (row \<in> set (rows_to_delete today records) \<longleftrightarrow>
           (\<exists>row' e'. row_of records u row' e' \<and> e < e')))"
proof -
  have A: "(uid, items) \<in> set (purge_per_uid i_uid i_pu data) \<and> 1 < length items \<longrightarrow>
      kept_item items \<in> set items \<and>
      (\<forall>it \<in> set items. purge_key it \<le> purge_key (kept_item items)) \<and>
      set (purge_marks items) = fst ` set items - {fst (kept_item items)}"
  proof
    assume a: "(uid, items) \<in> set (purge_per_uid i_uid i_pu data) \<and> 1 < length items"
    then have ne: "items \<noteq> []" and l: "1 < length items"
      and g: "(uid, items) \<in> set (purge_per_uid i_uid i_pu data)" by auto
    have k1: "kept_item items \<in> set items" by (rule kept_item_max(1) [OF ne])
    have k2: "\<forall>it \<in> set items. purge_key it \<le> purge_key (kept_item items)"
      using kept_item_max(2) [OF ne] by simp
    have k3: "set (purge_marks items) = fst ` set items - {fst (kept_item items)}"
      by (rule purge_marks_set [OF l purge_per_uid_mem(3) [OF g]])
    from k1 k2 k3 show "kept_item items \<in> set items \<and>
      (\<forall>it \<in> set items. purge_key it \<le> purge_key (kept_item items)) \<and>
      set (purge_marks items) = fst ` set items - {fst (kept_item items)}"
      by (intro conjI)
  qed
  have B: "idx \<in> set (purge_to_delete i_uid i_pu data) \<longleftrightarrow>
        (\<exists>uid items. (uid, items) \<in> set (purge_per_uid i_uid i_pu data) \<and> 1 < length items \<and>
           idx \<in> fst ` set items \<and> idx \<noteq> fst (kept_item items))"
    by (rule purge_to_delete_iff)
  have C: "u \<notin> set (users_to_kick today records) \<and> row_of records u row e \<longrightarrow>
        (row \<in> set (rows_to_delete today records) \<longleftrightarrow>
           (\<exists>row' e'. row_of records u row' e' \<and> e < e'))"
  proof
    assume a: "u \<notin> set (users_to_kick today records) \<and> row_of records u row e"
    show "row \<in> set (rows_to_delete today records) \<longleftrightarrow>
             (\<exists>row' e'. row_of records u row' e' \<and> e < e')"
    proof
      assume "row \<in> set (rows_to_delete today records)"
      then obtain u' e0 where r: "row_of records u' row e0"
        and c: "u' \<in> set (users_to_kick today records) \<or>
                (\<exists>row' e'. row_of records u' row' e' \<and> e0 < e')"
        unfolding rows_to_delete_iff by blast
      from a r have "u' = u" "e0 = e" using row_of_unique by blast+
      with a c show "\<exists>row' e'. row_of records u row' e' \<and> e < e'" by blast
    next
      assume "\<exists>row' e'. row_of records u row' e' \<and> e < e'"
      with a show "row \<in> set (rows_to_delete today records)"
        unfolding rows_to_delete_iff by blast
    qed
  qed
  from A B C show ?thesis by (intro conjI)
qed

theorem dedupe_rule_witness:
  "(1, [(2 :: nat, Some ((2025, 3, 20) :: date)), (3, Some (2025, 3, 21)), (4, None)])
      \<in> set (purge_per_uid 0 1 [[''1'', ''2025-03-20''], [''1'', ''2025-03-21''], [''1'', '''']])
   \<and> kept_item [(2 :: nat, Some ((2025, 3, 20) :: date)), (3, Some (2025, 3, 21)), (4, None)] = (3, Some (2025, 3, 21))
   \<and> set (purge_marks [(2 :: nat, Some ((2025, 3, 20) :: date)), (3, Some (2025, 3, 21)), (4, None)]) =
        fst ` set [(2 :: nat, Some ((2025, 3, 20) :: date)), (3, Some (2025, 3, 21)), (4, None)] -
        {fst (kept_item [(2 :: nat, Some ((2025, 3, 20) :: date)), (3, Some (2025, 3, 21)), (4, None)])}
   \<and> 1 \<notin> set (users_to_kick (2025, 3, 25) scenario_records)
   \<and> row_of scenario_records 1 3 (2025, 1, 10)
   \<and> row_of scenario_records 1 2 (2025, 3, 20)
   \<and> 3 \<in> set (rows_to_delete (2025, 3, 25) scenario_records)"
proof -
  have g: "(1, [(2 :: nat, Some ((2025, 3, 20) :: date)), (3, Some (2025, 3, 21)), (4, None)])
      \<in> set (purge_per_uid 0 1 [[''1'', ''2025-03-20''], [''1'', ''2025-03-21''], [''1'', '''']])"
    by code_simp
  have l: "1 < length [(2 :: nat, Some ((2025, 3, 20) :: date)), (3, Some (2025, 3, 21)), (4, None)]"
    by simp
  have k: "kept_item [(2 :: nat, Some ((2025, 3, 20) :: date)), (3, Some (2025, 3, 21)), (4, None)] = (3, Some (2025, 3, 21))"
    by code_simp
  have n: "1 \<notin> set (users_to_kick (2025, 3, 25) scenario_records)" by code_simp
  have r: "row_of scenario_records 1 3 (2025, 1, 10)" "row_of scenario_records 1 2 (2025, 3, 20)"
    by code_simp+
  have lt: "(2025, 1, 10) < ((2025, 3, 20) :: date)" by simp
  have c1: "kept_item [(2 :: nat, Some ((2025, 3, 20) :: date)), (3, Some (2025, 3, 21)), (4, None)]
          \<in> set [(2 :: nat, Some ((2025, 3, 20) :: date)), (3, Some (2025, 3, 21)), (4, None)] \<and>
      (\<forall>it \<in> set [(2 :: nat, Some ((2025, 3, 20) :: date)), (3, Some (2025, 3, 21)), (4, None)].
          purge_key it \<le> purge_key (kept_item [(2 :: nat, Some ((2025, 3, 20) :: date)), (3, Some (2025, 3, 21)), (4, None)])) \<and>
      set (purge_marks [(2 :: nat, Some ((2025, 3, 20) :: date)), (3, Some (2025, 3, 21)), (4, None)]) =
        fst ` set [(2 :: nat, Some ((2025, 3, 20) :: date)), (3, Some (2025, 3, 21)), (4, None)] -
        {fst (kept_item [(2 :: nat, Some ((2025, 3, 20) :: date)), (3, Some (2025, 3, 21)), (4, None)])}"
    by (rule dedupe_rule [THEN conjunct1, THEN mp, OF conjI [OF g l]])
  have c3: "3 \<in> set (rows_to_delete (2025, 3, 25) scenario_records) \<longleftrightarrow>
      (\<exists>row' e'. row_of scenario_records 1 row' e' \<and> (2025, 1, 10) < e')"
    by (rule dedupe_rule [THEN conjunct2, THEN conjunct2, THEN mp, OF conjI [OF n r(1)]])
  have d: "3 \<in> set (rows_to_delete (2025, 3, 25) scenario_records)"
    unfolding c3 using r(2) lt by blast
  from g k c1 [THEN conjunct2, THEN conjunct2] n r d show ?thesis by (intro conjI)
qed

text \<open>
  Two rows of one identity with the same period end: the duplicate removal marks the
  earlier row, the removal pass (run on 2025-03-05) marks none.
\<close>

theorem dedupe_rule_counterexample:
  "purge_to_delete 0 1 [[''1'', ''2025-03-20''], [''1'', ''2025-03-20'']] = [2]
   \<and> users_to_kick (2025, 3, 5)
        [[''user_id'' \<mapsto> PInt 1, data_okonchaniya \<mapsto> PStr ''2025-03-20''],
         [''user_id'' \<mapsto> PInt 1, data_okonchaniya \<mapsto> PStr ''2025-03-20'']] = []
   \<and> rows_to_delete (2025, 3, 5)
        [[''user_id'' \<mapsto> PInt 1, data_okonchaniya \<mapsto> PStr ''2025-03-20''],
         [''user_id'' \<mapsto> PInt 1, data_okonchaniya \<mapsto> PStr ''2025-03-20'']] = []"
  by code_simp

section \<open>Idempotence of the removal of duplicate rows\<close>

lemma delete_rows_append:
  "1 \<le> t \<Longrightarrow> t \<le> length xs \<Longrightarrow> delete_rows t (xs @ ys) = delete_rows t xs @ ys"
  by (simp add: delete_rows_def)

lemma delete_rows_length:
  "1 \<le> t \<Longrightarrow> t \<le> length xs \<Longrightarrow> length (delete_rows t xs) = length xs - 1"
  by (simp add: delete_rows_def)

lemma fold_delete_rows_append:
  "sorted_wrt (>) td \<Longrightarrow> \<forall>t \<in> set td. 1 \<le> t \<and> t \<le> length xs \<Longrightarrow>
     fold delete_rows td (xs @ ys) = fold delete_rows td xs @ ys"
proof (induction td arbitrary: xs)
  case Nil
  then show ?case by simp
next
  case (Cons t td)
  have t: "1 \<le> t" "t \<le> length xs" using Cons.prems by auto
  have s: "sorted_wrt (>) td" using Cons.prems by simp
  have b: "\<forall>t' \<in> set td. 1 \<le> t' \<and> t' \<le> length (delete_rows t xs)"
  proof
    fix t' assume m: "t' \<in> set td"
    then have "t' < t" using Cons.prems by auto
    moreover have "1 \<le> t'" using Cons.prems m by auto
    ultimately show "1 \<le> t' \<and> t' \<le> length (delete_rows t xs)"
      using t by (simp add: delete_rows_length)
  qed
  show ?case
    using Cons.IH [OF s b] t by (simp add: delete_rows_append)
qed

lemma fold_delete_rows_filter:
  "sorted_wrt (>) td \<Longrightarrow> \<forall>t \<in> set td. 1 \<le> t \<and> t \<le> length xs \<Longrightarrow>
     fold delete_rows td xs = map snd (filter (\<lambda>p. fst p \<notin> set td) (enumerate 1 xs))"
proof (induction xs arbitrary: td rule: rev_induct)
  case Nil
  then have "td = []" by (cases td) auto
  then show ?case by simp
next
  case (snoc x xs)
  let ?n = "length xs"
  have en: "enumerate (Suc 0) (xs @ [x]) = enumerate (Suc 0) xs @ [(Suc ?n, x)]"
    by (simp add: enumerate_append_eq)
  have low: "fst p \<le> ?n" if "p \<in> set (enumerate 1 xs)" for p
  proof -
    obtain i y where "p = (i, y)" by (cases p)
    with that show ?thesis by (auto simp: in_set_enumerate_eq)
  qed
  show ?case
  proof (cases "Suc ?n \<in> set td")
    case True
    then obtain t td' where td: "td = t # td'" by (cases td) auto
    have t: "t = Suc ?n"
    proof (rule ccontr)
      assume "t \<noteq> Suc ?n"
      then have "Suc ?n \<in> set td'" using True td by simp
      then have "Suc ?n < t" using snoc.prems(1) td by auto
      moreover have "t \<le> Suc ?n" using snoc.prems(2) td by simp
      ultimately show False by simp
    qed
    have s: "sorted_wrt (>) td'" using snoc.prems(1) td by simp
    have b: "\<forall>t' \<in> set td'. 1 \<le> t' \<and> t' \<le> length xs"
      using snoc.prems td t by fastforce
    have d: "delete_rows (Suc ?n) (xs @ [x]) = xs" by (simp add: delete_rows_def)
    have f: "filter (\<lambda>p. fst p \<notin> set td) (enumerate 1 xs) =
             filter (\<lambda>p. fst p \<notin> set td') (enumerate 1 xs)"
      by (rule filter_cong) (use low td t in fastforce)+
    have "fold delete_rows td (xs @ [x]) = fold delete_rows td' xs"
      by (simp add: td t d)
    also have "\<dots> = map snd (filter (\<lambda>p. fst p \<notin> set td') (enumerate 1 xs))"
      by (rule snoc.IH [OF s b])
    also have "\<dots> = map snd (filter (\<lambda>p. fst p \<notin> set td) (enumerate 1 xs))"
      by (simp only: f)
    also have "\<dots> = map snd (filter (\<lambda>p. fst p \<notin> set td) (enumerate 1 (xs @ [x])))"
      using True by (simp add: en)
    finally show ?thesis .
  next
    case False
    have b: "\<forall>t' \<in> set td. 1 \<le> t' \<and> t' \<le> length xs"
    proof
      fix t' assume m: "t' \<in> set td"
      then have "t' \<noteq> Suc ?n" using False by auto
      then show "1 \<le> t' \<and> t' \<le> length xs" using snoc.prems(2) m by fastforce
    qed
    have "fold delete_rows td (xs @ [x]) = fold delete_rows td xs @ [x]"
      by (rule fold_delete_rows_append [OF snoc.prems(1) b])
    also have "fold delete_rows td xs = map snd (filter (\<lambda>p. fst p \<notin> set td) (enumerate 1 xs))"
      by (rule snoc.IH [OF snoc.prems(1) b])
    also have "\<dots> @ [x] = map snd (filter (\<lambda>p. fst p \<notin> set td) (enumerate 1 (xs @ [x])))"
      using False by (simp add: en)
    finally show ?thesis .
  qed
qed

lemma surviving_mem:
  "r \<in> set (surviving M data) \<longleftrightarrow>
     (\<exists>j. 2 \<le> j \<and> j < 2 + length data \<and> j \<notin> M \<and> r = data ! (j - 2))"
proof -
  have "r \<in> set (surviving M data) \<longleftrightarrow> (\<exists>j. (j, r) \<in> set (enumerate 2 data) \<and> j \<notin> M)"
    by (force simp: surviving_def)
  then show ?thesis by (auto simp: in_set_enumerate_eq)
qed

lemma purge_per_uid_unique:
  assumes "(uid, items) \<in> set (purge_per_uid i_uid i_pu data)"
    and "(uid, items') \<in> set (purge_per_uid i_uid i_pu data)"
  shows "items' = items"
proof -
  have d: "distinct (map fst (purge_per_uid i_uid i_pu data))"
    by (simp add: purge_per_uid_def group_pairs_distinct)
  from map_of_is_SomeI [OF d assms(1)] map_of_is_SomeI [OF d assms(2)] show ?thesis by simp
qed

lemma purge_row_of_uid:
  "purge_row_of i_uid i_pu data uid idx pu \<Longrightarrow> purge_row_of i_uid i_pu data uid' idx pu' \<Longrightarrow>
     uid' = uid \<and> pu' = pu"
  by (simp add: purge_row_of_def)

lemma kept_item_single: "kept_item [x] = x"
  by (simp add: kept_item_def py_sorted_reverse_def)

lemma marked_iff:
  assumes g: "(uid, items) \<in> set (purge_per_uid i_uid i_pu data)"
    and r: "purge_row_of i_uid i_pu data uid idx pu"
  shows "idx \<in> set (purge_to_delete i_uid i_pu data) \<longleftrightarrow>
           1 < length items \<and> idx \<noteq> fst (kept_item items)"
proof
  assume "idx \<in> set (purge_to_delete i_uid i_pu data)"
  then obtain uid2 items2 where g2: "(uid2, items2) \<in> set (purge_per_uid i_uid i_pu data)"
      and l: "1 < length items2" and i: "idx \<in> fst ` set items2" "idx \<noteq> fst (kept_item items2)"
    unfolding purge_to_delete_iff by blast
  from i(1) obtain pu2 where "(idx, pu2) \<in> set items2" by force
  then have "purge_row_of i_uid i_pu data uid2 idx pu2"
    using purge_per_uid_mem(2) [OF g2] by blast
  with r have "uid2 = uid" using purge_row_of_uid by blast
  with g g2 have "items2 = items" using purge_per_uid_unique by blast
  with l i show "1 < length items \<and> idx \<noteq> fst (kept_item items)" by simp
next
  assume a: "1 < length items \<and> idx \<noteq> fst (kept_item items)"
  have "(idx, pu) \<in> set items" using purge_per_uid_mem(2) [OF g] r by blast
  then have "idx \<in> fst ` set items" by force
  with a g show "idx \<in> set (purge_to_delete i_uid i_pu data)"
    unfolding purge_to_delete_iff by blast
qed

lemma kept_row:
  assumes g: "(uid, items) \<in> set (purge_per_uid i_uid i_pu data)"
  shows "purge_row_of i_uid i_pu data uid (fst (kept_item items)) (snd (kept_item items))"
    and "fst (kept_item items) \<notin> set (purge_to_delete i_uid i_pu data)"
proof -
  have ne: "items \<noteq> []" by (rule purge_per_uid_mem(1) [OF g])
  have "kept_item items \<in> set items" by (rule kept_item_max(1) [OF ne])
  then have "(fst (kept_item items), snd (kept_item items)) \<in> set items" by simp
  then show r: "purge_row_of i_uid i_pu data uid (fst (kept_item items)) (snd (kept_item items))"
    using purge_per_uid_mem(2) [OF g] by blast
  show "fst (kept_item items) \<notin> set (purge_to_delete i_uid i_pu data)"
    using marked_iff [OF g r] by simp
qed

lemma survivor_is_kept:
  assumes g: "(uid, items) \<in> set (purge_per_uid i_uid i_pu data)"
    and r: "purge_row_of i_uid i_pu data uid j pu"
    and n: "j \<notin> set (purge_to_delete i_uid i_pu data)"
  shows "j = fst (kept_item items)"
proof (cases "1 < length items")
  case True
  then show ?thesis using marked_iff [OF g r] n by blast
next
  case False
  have ne: "items \<noteq> []" by (rule purge_per_uid_mem(1) [OF g])
  with False obtain x where x: "items = [x]" by (cases items) auto
  have "(j, pu) \<in> set items" using purge_per_uid_mem(2) [OF g] r by blast
  then show ?thesis by (auto simp: x kept_item_single)
qed

lemma purge_items_count:
  "length (filter (\<lambda>p. fst p = uid) (List.map_filter (purge_item i_uid i_pu) (enumerate n ds))) =
     length (filter (\<lambda>r. purge_uid i_uid r = Some uid) ds)"
  by (induction ds arbitrary: n)
     (auto simp: purge_item_def split: option.splits)

lemma length_le_1_if_same_key:
  "distinct (map f xs) \<Longrightarrow> \<forall>x \<in> set xs. f x = k \<Longrightarrow> length xs \<le> 1"
proof (cases xs)
  case Nil
  then show ?thesis by simp
next
  case (Cons a ys)
  assume d: "distinct (map f xs)" and k: "\<forall>x \<in> set xs. f x = k"
  have "ys = []"
  proof (cases ys)
    case Nil
    then show ?thesis .
  next
    case (Cons b zs)
    with \<open>xs = a # ys\<close> d k show ?thesis by auto
  qed
  with Cons show ?thesis by simp
qed

lemma purge_to_delete_range:
  assumes "idx \<in> set (purge_to_delete i_uid i_pu data)"
  shows "2 \<le> idx \<and> idx < 2 + length data"
proof -
  from assms obtain uid items where g: "(uid, items) \<in> set (purge_per_uid i_uid i_pu data)"
      and i: "idx \<in> fst ` set items"
    unfolding purge_to_delete_iff by blast
  from i obtain pu where "(idx, pu) \<in> set items" by force
  then have "purge_row_of i_uid i_pu data uid idx pu"
    using purge_per_uid_mem(2) [OF g] by blast
  then show ?thesis by (simp add: purge_row_of_def)
qed

lemma purge_apply:
  assumes "M = set (purge_to_delete i_uid i_pu data)"
  shows "fold delete_rows (rev (sorted_list_of_set M)) (h # data) = h # surviving M data"
proof -
  let ?td = "rev (sorted_list_of_set M)"
  have fin: "finite M" using assms by simp
  have set_td: "set ?td = M" using fin by simp
  have "sorted_wrt (<) (sorted_list_of_set M)"
    by (rule sorted_list_of_set.strict_sorted_key_list_of_set [unfolded strict_sorted_iff, folded strict_sorted_iff])
  then have s: "sorted_wrt (>) ?td" by (simp add: sorted_wrt_rev)
  have b: "\<forall>t \<in> set ?td. 1 \<le> t \<and> t \<le> length (h # data)"
  proof
    fix t assume "t \<in> set ?td"
    then have "t \<in> set (purge_to_delete i_uid i_pu data)" using set_td assms by simp
    from purge_to_delete_range [OF this] show "1 \<le> t \<and> t \<le> length (h # data)" by simp
  qed
  have one: "1 \<notin> M"
  proof
    assume "1 \<in> M"
    then have "1 \<in> set (purge_to_delete i_uid i_pu data)" using assms by simp
    from purge_to_delete_range [OF this] show False by simp
  qed
  have "fold delete_rows ?td (h # data) =
        map snd (filter (\<lambda>p. fst p \<notin> set ?td) (enumerate 1 (h # data)))"
    by (rule fold_delete_rows_filter [OF s b])
  also have "\<dots> = map snd (filter (\<lambda>p. fst p \<notin> M) (enumerate 1 (h # data)))"
    by (simp only: set_td)
  also have "\<dots> = h # surviving M data"
    using one by (simp add: surviving_def numeral_2_eq_2)
  finally show ?thesis .
qed

lemma second_run_count:
  assumes M: "M = set (purge_to_delete i_uid i_pu data)"
  shows "length (filter (\<lambda>r. purge_uid i_uid r = Some uid) (surviving M data)) \<le> 1"
proof -
  let ?L = "filter (\<lambda>p. purge_uid i_uid (snd p) = Some uid)
              (filter (\<lambda>p. fst p \<notin> M) (enumerate 2 data))"
  have len: "length (filter (\<lambda>r. purge_uid i_uid r = Some uid) (surviving M data)) = length ?L"
    by (simp add: surviving_def filter_map comp_def)
  have "distinct (map fst (enumerate 2 data))" by (simp add: enumerate_eq_zip)
  then have d: "distinct (map fst ?L)" by (simp add: distinct_map_filter)
  show ?thesis
  proof (cases "?L = []")
    case True
    then show ?thesis using len by simp
  next
    case False
    then have "hd ?L \<in> set ?L" by (rule hd_in_set)
    then obtain p0 where p0: "p0 \<in> set ?L" by blast
    have row: "purge_row_of i_uid i_pu data uid (fst p) (purge_pu i_pu (snd p)) \<and> fst p \<notin> M"
      if "p \<in> set ?L" for p
    proof -
      obtain j r where p: "p = (j, r)" by (cases p)
      from that p have "(j, r) \<in> set (enumerate 2 data)" "purge_uid i_uid r = Some uid" "j \<notin> M"
        by auto
      then show ?thesis by (auto simp: p purge_row_of_def in_set_enumerate_eq)
    qed
    from row [OF p0] obtain items where g: "(uid, items) \<in> set (purge_per_uid i_uid i_pu data)"
      using purge_per_uid_has_group by blast
    have "\<forall>p \<in> set ?L. fst p = fst (kept_item items)"
    proof
      fix p assume "p \<in> set ?L"
      from row [OF this] show "fst p = fst (kept_item items)"
        using survivor_is_kept [OF g] M by blast
    qed
    from length_le_1_if_same_key [OF d this] len show ?thesis by simp
  qed
qed

lemma second_run_no_marks:
  assumes M: "M = set (purge_to_delete i_uid i_pu data)"
  shows "purge_to_delete i_uid i_pu (surviving M data) = []"
proof -
  have "purge_marks items = []" if "(uid, items) \<in> set (purge_per_uid i_uid i_pu (surviving M data))"
    for uid items
  proof -
    let ?kvs = "List.map_filter (purge_item i_uid i_pu) (enumerate 2 (surviving M data))"
    from that have "items = map snd (filter (\<lambda>p. fst p = uid) ?kvs)"
      by (simp add: purge_per_uid_def group_pairs_mem)
    then have "length items = length (filter (\<lambda>r. purge_uid i_uid r = Some uid) (surviving M data))"
      by (simp add: purge_items_count)
    then have "length items \<le> 1" using second_run_count [OF M, of uid] by simp
    then show ?thesis by (simp add: purge_marks_def)
  qed
  then show ?thesis by (auto simp: purge_to_delete_def)
qed

lemma surviving_row_origin:
  assumes "purge_row_of i_uid i_pu (surviving M data) uid idx' pu'"
  shows "\<exists>j pu. purge_row_of i_uid i_pu data uid j pu \<and> j \<notin> M \<and>
           data ! (j - 2) = surviving M data ! (idx' - 2)"
proof -
  from assms have i: "idx' - 2 < length (surviving M data)"
    and u: "purge_uid i_uid (surviving M data ! (idx' - 2)) = Some uid"
    by (auto simp: purge_row_of_def)
  from i have "surviving M data ! (idx' - 2) \<in> set (surviving M data)" by (rule nth_mem)
  then obtain j where j: "2 \<le> j" "j < 2 + length data" "j \<notin> M"
      "surviving M data ! (idx' - 2) = data ! (j - 2)"
    unfolding surviving_mem by blast
  with u have "purge_row_of i_uid i_pu data uid j (purge_pu i_pu (data ! (j - 2)))"
    by (simp add: purge_row_of_def)
  with j show ?thesis by metis
qed

lemma surviving_row_position:
  assumes "purge_row_of i_uid i_pu data uid j pu" "j \<notin> M"
  shows "\<exists>idx' pu'. purge_row_of i_uid i_pu (surviving M data) uid idx' pu'"
proof -
  from assms have "data ! (j - 2) \<in> set (surviving M data)"
    unfolding surviving_mem by (auto simp: purge_row_of_def)
  then obtain i where i: "i < length (surviving M data)" "surviving M data ! i = data ! (j - 2)"
    by (auto simp: in_set_conv_nth)
  with assms(1) have "purge_row_of i_uid i_pu (surviving M data) uid (i + 2)
      (purge_pu i_pu (surviving M data ! i))"
    by (simp add: purge_row_of_def)
  then show ?thesis by blast
qed

lemma authoritative_same:
  assumes M: "M = set (purge_to_delete i_uid i_pu data)"
  shows "(case map_of (purge_per_uid i_uid i_pu (surviving M data)) uid of
            None \<Rightarrow> None
          | Some items \<Rightarrow> Some (surviving M data ! (fst (kept_item items) - 2))) =
         (case map_of (purge_per_uid i_uid i_pu data) uid of
            None \<Rightarrow> None
          | Some items \<Rightarrow> Some (data ! (fst (kept_item items) - 2)))"
proof (cases "map_of (purge_per_uid i_uid i_pu data) uid")
  case None
  have "map_of (purge_per_uid i_uid i_pu (surviving M data)) uid = None"
  proof (rule ccontr)
    assume "map_of (purge_per_uid i_uid i_pu (surviving M data)) uid \<noteq> None"
    then obtain items' where "map_of (purge_per_uid i_uid i_pu (surviving M data)) uid = Some items'"
      by blast
    then have g': "(uid, items') \<in> set (purge_per_uid i_uid i_pu (surviving M data))"
      by (rule map_of_SomeD)
    from kept_row(1) [OF g'] surviving_row_origin
    obtain j pu where "purge_row_of i_uid i_pu data uid j pu" by blast
    then obtain items where "(uid, items) \<in> set (purge_per_uid i_uid i_pu data)"
      using purge_per_uid_has_group by blast
    then have "map_of (purge_per_uid i_uid i_pu data) uid \<noteq> None"
      by (metis None map_of_eq_None_iff fst_conv image_eqI)
    with None show False by simp
  qed
  with None show ?thesis by simp
next
  case (Some items)
  then have g: "(uid, items) \<in> set (purge_per_uid i_uid i_pu data)" by (rule map_of_SomeD)
  have k: "purge_row_of i_uid i_pu data uid (fst (kept_item items)) (snd (kept_item items))"
    and kn: "fst (kept_item items) \<notin> M"
    using kept_row [OF g] M by simp_all
  from surviving_row_position [OF k kn]
  obtain items' where g': "(uid, items') \<in> set (purge_per_uid i_uid i_pu (surviving M data))"
    using purge_per_uid_has_group by blast
  have d': "distinct (map fst (purge_per_uid i_uid i_pu (surviving M data)))"
    by (simp add: purge_per_uid_def group_pairs_distinct)
  have m': "map_of (purge_per_uid i_uid i_pu (surviving M data)) uid = Some items'"
    by (rule map_of_is_SomeI [OF d' g'])
  from kept_row(1) [OF g'] surviving_row_origin
  obtain j pu where j: "purge_row_of i_uid i_pu data uid j pu" "j \<notin> M"
      "data ! (j - 2) = surviving M data ! (fst (kept_item items') - 2)"
    by blast
  have "j = fst (kept_item items)"
    using survivor_is_kept [OF g j(1)] j(2) M by simp
  with j(3) have "surviving M data ! (fst (kept_item items') - 2) = data ! (fst (kept_item items) - 2)"
    by simp
  with Some m' show ?thesis by simp
qed

lemma row_values_header: "row_values 1 (h # data) = row_values 1 (h # data')"
  by (simp add: row_values_def)

text \<open>
  Claim C7. When a run of the duplicate removal has deleted the rows it marked, a second
  run on the resulting ledger marks no row, and every identity has the same authoritative
  row (the same row of cells) in the resulting ledger as in the first one.
\<close>

theorem purge_idempotent:
  assumes "purge_duplicate_rows rows = Purged rows' n"
  shows "purge_duplicate_rows rows' = Purge_No_Duplicates \<and>
         (\<forall>uid. authoritative_row rows' uid = authoritative_row rows uid)"
proof -
  from assms obtain h data where rows: "rows = h # data"
    by (cases rows) (auto simp: purge_duplicate_rows_def)
  from assms rows obtain i_uid i_pu where c1: "find_col (row_values 1 (h # data)) ''user_id'' = Some i_uid"
      and c2: "find_col (row_values 1 (h # data)) data_okonchaniya = Some i_pu"
    by (auto simp: purge_duplicate_rows_def split: option.splits)
  define M where "M = set (purge_to_delete i_uid i_pu data)"
  from assms rows c1 c2 have "rows' = fold delete_rows (rev (sorted_list_of_set M)) (h # data)"
    by (auto simp: purge_duplicate_rows_def Let_def M_def split: if_splits)
  then have rows': "rows' = h # surviving M data"
    using purge_apply [OF M_def] by simp
  have h1: "find_col (row_values 1 (h # surviving M data)) ''user_id'' = Some i_uid"
    and h2: "find_col (row_values 1 (h # surviving M data)) data_okonchaniya = Some i_pu"
    using c1 c2 row_values_header [of h "surviving M data" data] by simp_all
  have no: "purge_duplicate_rows rows' = Purge_No_Duplicates"
    unfolding rows' using h1 h2 second_run_no_marks [OF M_def]
    by (simp add: purge_duplicate_rows_def)
  have same: "authoritative_row rows' uid = authoritative_row rows uid" for uid
    unfolding rows rows' authoritative_row_def
    using h1 h2 c1 c2 authoritative_same [OF M_def, of uid] by simp
  from no same show ?thesis by blast
qed

theorem purge_idempotent_witness:
  "purge_duplicate_rows
     [[''user_id'', ''end_date''], [''1'', ''2025-03-20''], [''1'', ''2025-03-21''],
      [''2'', ''2025-01-01'']] =
     Purged [[''user_id'', ''end_date''], [''1'', ''2025-03-21''], [''2'', ''2025-01-01'']] 1
   \<and> purge_duplicate_rows
        [[''user_id'', ''end_date''], [''1'', ''2025-03-21''], [''2'', ''2025-01-01'']] =
        Purge_No_Duplicates
   \<and> authoritative_row
        [[''user_id'', ''end_date''], [''1'', ''2025-03-21''], [''2'', ''2025-01-01'']] 1 =
      authoritative_row
        [[''user_id'', ''end_date''], [''1'', ''2025-03-20''], [''1'', ''2025-03-21''],
         [''2'', ''2025-01-01'']] 1
   \<and> authoritative_row
        [[''user_id'', ''end_date''], [''1'', ''2025-03-20''], [''1'', ''2025-03-21''],
         [''2'', ''2025-01-01'']] 1 = Some [''1'', ''2025-03-21'']"
proof -
  have r: "purge_duplicate_rows
     [[''user_id'', ''end_date''], [''1'', ''2025-03-20''], [''1'', ''2025-03-21''],
      [''2'', ''2025-01-01'']] =
     Purged [[''user_id'', ''end_date''], [''1'', ''2025-03-21''], [''2'', ''2025-01-01'']] 1"
    by code_simp
  have a: "authoritative_row
        [[''user_id'', ''end_date''], [''1'', ''2025-03-20''], [''1'', ''2025-03-21''],
         [''2'', ''2025-01-01'']] 1 = Some [''1'', ''2025-03-21'']"
    by code_simp
  from purge_idempotent [OF r] r a show ?thesis by blast
qed

section \<open>Properties of the audit\<close>











section \<open>Properties of the gatekeeper\<close>

lemma findall_rows:
  "r \<in> fst ` set (findall query sh) \<longleftrightarrow> 1 \<le> r \<and> r \<le> length sh \<and> query \<in> set (sh ! (r - 1))"
proof -
  have cell: "(\<exists>c v. (c, v) \<in> set (enumerate 1 row) \<and> v = query) \<longleftrightarrow> query \<in> set row" for row
  proof -
    have "set row = snd ` set (enumerate 1 row)"
      by (metis list.set_map map_snd_enumerate)
    then show ?thesis by force
  qed
  have "r \<in> fst ` set (findall query sh) \<longleftrightarrow>
          (\<exists>row. (r, row) \<in> set (enumerate 1 sh) \<and> (\<exists>c v. (c, v) \<in> set (enumerate 1 row) \<and> v = query))"
    by (force simp: findall_def)
  also have "\<dots> \<longleftrightarrow> (\<exists>row. (r, row) \<in> set (enumerate 1 sh) \<and> query \<in> set row)"
    by (simp only: cell)
  also have "\<dots> \<longleftrightarrow> 1 \<le> r \<and> r \<le> length sh \<and> query \<in> set (sh ! (r - 1))"
    by (auto simp: in_set_enumerate_eq)
  finally show ?thesis .
qed

lemma on_join_request_answer:
  "on_join_request (Some sh) raises today uid =
     (let answer = (if \<exists>r. 1 \<le> r \<and> r \<le> length sh \<and> py_str_int uid \<in> set (sh ! (r - 1)) \<and>
                            row_is_paid (row_values 1 sh) today (row_values r sh)
                    then Approve_join uid else Decline_join uid)
      in if raises answer then [answer, Decline_join uid] else [answer])"
proof -
  have "list_ex (\<lambda>c. row_is_paid (row_values 1 sh) today (row_values (fst c) sh))
          (findall (py_str_int uid) sh) \<longleftrightarrow>
        (\<exists>r \<in> fst ` set (findall (py_str_int uid) sh).
           row_is_paid (row_values 1 sh) today (row_values r sh))"
    by (auto simp: list_ex_iff)
  also have "\<dots> \<longleftrightarrow> (\<exists>r. 1 \<le> r \<and> r \<le> length sh \<and> py_str_int uid \<in> set (sh ! (r - 1)) \<and>
                            row_is_paid (row_values 1 sh) today (row_values r sh))"
    using findall_rows [of _ "py_str_int uid" sh] by blast
  finally show ?thesis by (simp add: on_join_request_def Let_def)
qed

lemma on_join_request_fail_closed:
  "on_join_request None raises today uid = [Decline_join uid]"
  "findall (py_str_int uid) sh = [] \<Longrightarrow>
     on_join_request (Some sh) (\<lambda>c. False) today uid = [Decline_join uid]"
  by (simp_all add: on_join_request_def)

text \<open>
  Claim C5, at a failing input. The ledger holds one row, of identity 5, paid until
  2025-04-20, whose full name cell is the text ``7''. Identity 7 has no row in the
  ledger, and its join request of 2025-03-10 is approved, because the search for the
  text ``7'' finds the full name cell of the row of identity 5. A request of identity 8,
  which has no row either, is declined.
\<close>

theorem join_request_foreign_cell_failing_input:
  "on_join_request
     (Some [WANTED_HEADERS_RU,
            [''5'', ''@ann'', ''2025-03-01'', ''2025-04-20'', ''no'', ''active'', ''7'', '''', '''']])
     (\<lambda>c. False) (2025, 3, 10) 7 = [Approve_join 7]
   \<and> find_col WANTED_HEADERS_RU ''user_id'' = Some 0
   \<and> py_int ([''5'', ''@ann'', ''2025-03-01'', ''2025-04-20'', ''no'', ''active'', ''7'', '''', ''''] ! 0)
       = Some 5
   \<and> on_join_request
        (Some [WANTED_HEADERS_RU,
               [''5'', ''@ann'', ''2025-03-01'', ''2025-04-20'', ''no'', ''active'', ''7'', '''', '''']])
        (\<lambda>c. False) (2025, 3, 10) 8 = [Decline_join 8]"
  by code_simp

section \<open>Properties of the approval write\<close>




lemma trim_row_blank: "trim_row (replicate k []) = []"
  by (simp add: trim_row_def)

































end
